theory Spec2Isabelle
  imports Complex_Main "HOL-Library.Sublist" "HOL-Library.Char_ord" "HOL-Library.List_Lexorder"
begin

section \<open>TagTime log analysis (script/pytagtime.py)\<close>

text \<open>
  The script reads a TagTime log (one ping per line: a Unix timestamp, tags, an optional
  bracketed annotation), turns every ping into weighted events, collects the events in a
  time-indexed table with one column per tag, and derives charts from that table.

  Conventions of the embedding:
  \<^item> Python floats are idealised as \<open>real\<close>: rounding and overflow are not modelled, and
    underflow is modelled where the script depends on it, in \<open>np.exp\<close> (\<open>np_exp\<close>
    below). Where numpy would produce NaN or an infinity (a division by zero) the model
    says so explicitly (\<open>None\<close>, or the outcome \<open>NotANumber\<close>) instead of using
    HOL's \<open>x / 0 = 0\<close>.
  \<^item> A \<open>datetime\<close> is the number of seconds of local time since 1970-01-01 00:00, a
    \<open>real\<close> (the microsecond resolution of \<open>timedelta\<close> is not modelled). The local
    time zone is a fixed offset from UTC, the field \<open>utcoffset\<close>.
  \<^item> The random draws of \<open>np.random.uniform\<close> and \<open>random.choice\<close> are parameters
    (\<open>noise\<close>, \<open>rnd\<close>), one value per draw.
  \<^item> Exceptions are values of the type \<open>failure\<close>; a function that can raise returns
    \<open>failure + 'a\<close>.
  \<^item> Printing and plotting are left out.
\<close>

subsection \<open>Configuration (the attributes set by \<open>TagTimeLog.__init__\<close>)\<close>

record config =
  skipweekdays :: "int list"
  skiptags :: "string list"
  interval :: real
  multitag :: string
  obfuscate :: bool
  smooth :: bool
  sigma :: real
  utcoffset :: int

text \<open>The defaults of the constructor, in a time zone that is UTC.\<close>

definition default_config :: config where
  "default_config = \<lparr>skipweekdays = [], skiptags = [], interval = 3 / 4, multitag = ''first'',
     obfuscate = False, smooth = True, sigma = 1, utcoffset = 0\<rparr>"

datatype failure =
    ValueError_literal string  \<comment> \<open>\<open>int(s)\<close>: invalid literal for int() with base 10: s\<close>
  | ValueError_range           \<comment> \<open>\<open>fromtimestamp\<close>: year is out of range\<close>
  | OverflowError_date         \<comment> \<open>\<open>datetime + timedelta\<close>: date value out of range\<close>
  | ZeroDivisionError          \<comment> \<open>\<open>np.arange\<close> with step 0\<close>
  | ReindexError               \<comment> \<open>pandas: reindexing a Series whose index has duplicates\<close>
  | KeyError string            \<comment> \<open>pandas: a selected column is not in the table\<close>
  | TypeError                  \<comment> \<open>a missing argument, or \<open>x in None\<close>\<close>
  | NotANumber                 \<comment> \<open>not an exception: the weights are NaN, and so is every duration\<close>

subsection \<open>Regular expressions on a line\<close>

text \<open>\<open>\s\<close> of a Python 2 byte-string pattern: space, \<open>\t \n \v \f \r\<close>.\<close>

definition is_space :: "char \<Rightarrow> bool" where
  "is_space c \<longleftrightarrow> c = CHR '' '' \<or> c = CHR 0x09 \<or> c = CHR 0x0A \<or> c = CHR 0x0B
     \<or> c = CHR 0x0C \<or> c = CHR 0x0D"

text \<open>
  \<open>re.sub(r'\s*\[.*?\]\s*$', '', line)\<close>. The pattern ends at the end of the line, so a
  match at position \<open>i\<close> exists iff the rest of the line from \<open>i\<close> is white space, an
  opening bracket, characters other than newline, a closing bracket and white space; the
  leftmost such \<open>i\<close> is taken and the match reaches the end of the line.
  \<open>has_close r\<close>: \<open>r\<close> matches \<open>.*?\]\s*$\<close>.
\<close>

fun has_close :: "string \<Rightarrow> bool" where
  "has_close [] = False"
| "has_close (c # r) = ((c = CHR '']'' \<and> list_all is_space r) \<or> (c \<noteq> CHR 0x0A \<and> has_close r))"

definition is_annotation :: "string \<Rightarrow> bool" where
  "is_annotation s = (case dropWhile is_space s of [] \<Rightarrow> False
     | c # r \<Rightarrow> c = CHR ''['' \<and> has_close r)"

fun strip_annotation :: "string \<Rightarrow> string" where
  "strip_annotation [] = []"
| "strip_annotation (c # r) = (if is_annotation (c # r) then [] else c # strip_annotation r)"

text \<open>
  \<open>re.split(r'\s+', line)\<close>: the pieces between maximal runs of white space, with an
  empty piece before a leading and after a trailing run; never the empty list.
\<close>

fun re_split :: "string \<Rightarrow> string list" where
  "re_split [] = [[]]"
| "re_split (c # r) =
     (if is_space c then (if r \<noteq> [] \<and> is_space (hd r) then re_split r else [] # re_split r)
      else (case re_split r of [] \<Rightarrow> [[c]] | tok # toks \<Rightarrow> (c # tok) # toks))"

subsection \<open>\<open>int(fields[0])\<close> and \<open>datetime.fromtimestamp\<close>\<close>

definition is_digit :: "char \<Rightarrow> bool" where
  "is_digit c \<longleftrightarrow> CHR ''0'' \<le> c \<and> c \<le> CHR ''9''"

definition digit_val :: "char \<Rightarrow> int" where
  "digit_val c = int (of_char c) - 48"

definition digits_val :: "string \<Rightarrow> int" where
  "digits_val s = foldl (\<lambda>a c. 10 * a + digit_val c) 0 s"

text \<open>
  \<open>int(s)\<close> on a string without white space (a field never holds any): an optional sign
  and at least one decimal digit, else \<open>ValueError\<close>, whose message quotes \<open>s\<close>.
  Python's integers are unbounded.
\<close>

definition is_int_literal :: "string \<Rightarrow> bool" where
  "is_int_literal s =
     (let body = (if s \<noteq> [] \<and> (hd s = CHR ''+'' \<or> hd s = CHR ''-'') then tl s else s)
      in body \<noteq> [] \<and> list_all is_digit body)"

definition py_int :: "string \<Rightarrow> failure + int" where
  "py_int s =
     (if is_int_literal s
      then Inr (if hd s = CHR ''-'' then - digits_val (tl s)
                else if hd s = CHR ''+'' then digits_val (tl s)
                else digits_val s)
      else Inl (ValueError_literal s))"

text \<open>The range of \<open>datetime\<close>: years 1 to 9999, in seconds of local time since 1970.\<close>

definition datetime_min :: real where "datetime_min = - 62135596800"
definition datetime_max :: real where "datetime_max = 253402300800"

definition in_datetime_range :: "real \<Rightarrow> bool" where
  "in_datetime_range t \<longleftrightarrow> datetime_min \<le> t \<and> t < datetime_max"

definition fromtimestamp :: "config \<Rightarrow> int \<Rightarrow> failure + real" where
  "fromtimestamp cfg ts =
     (let dt = real_of_int (ts + utcoffset cfg)
      in if in_datetime_range dt then Inr dt else Inl ValueError_range)"

text \<open>\<open>dt + datetime.timedelta(hours=h)\<close>.\<close>

definition add_hours :: "real \<Rightarrow> real \<Rightarrow> failure + real" where
  "add_hours dt h =
     (let dtx = dt + h * 3600
      in if in_datetime_range dtx then Inr dtx else Inl OverflowError_date)"

text \<open>\<open>dt.weekday()\<close>: Monday is 0; 1970-01-01 was a Thursday.\<close>

definition day_of :: "real \<Rightarrow> int" where
  "day_of t = \<lfloor>t / 86400\<rfloor>"

definition weekday :: "real \<Rightarrow> int" where
  "weekday t = (day_of t + 3) mod 7"

subsection \<open>The smoothing kernel (\<open>_parse_file\<close>, lines 96 to 103)\<close>

text \<open>
  \<open>np.arange(start, stop, step)\<close>: \<open>\<lceil>(stop - start) / step\<rceil>\<close> values
  \<open>start + i * step\<close>; none when that number is not positive; an error when \<open>step\<close> is 0.
\<close>

definition arange :: "real \<Rightarrow> real \<Rightarrow> real \<Rightarrow> failure + real list" where
  "arange start stop step =
     (if step = 0 then Inl ZeroDivisionError
      else Inr (map (\<lambda>i. start + real i * step) [0..<nat \<lceil>(stop - start) / step\<rceil>]))"

text \<open>
  \<open>offsetlist\<close>: \<open>[0.]\<close> without smoothing; with smoothing the grid from \<open>-2\<sigma>\<close> up to,
  not including, \<open>2\<sigma>\<close> in steps of \<open>(4\<sigma> + 1) / 15\<close>, each point moved by a random
  draw \<open>noise i\<close> from \<open>[-0.1, 0.1)\<close>.
\<close>

definition offsetlist :: "config \<Rightarrow> (nat \<Rightarrow> real) \<Rightarrow> failure + real list" where
  "offsetlist cfg noise =
     (let offsetinterval = (4 * sigma cfg + 1) / 15
      in if smooth cfg
         then (case arange (- 2 * sigma cfg) (2 * sigma cfg) offsetinterval of
                 Inl e \<Rightarrow> Inl e
               | Inr grid \<Rightarrow> Inr (map (\<lambda>(i, x). x + noise i) (zip [0..<length grid] grid)))
         else Inr [0])"

text \<open>
  \<open>np.exp\<close> on a double: the result is rounded to the nearest double, and the smallest
  positive double is \<open>2 ^ (-1074)\<close>, so the result is \<open>0.0\<close> as soon as the exponential is at
  most \<open>2 ^ (-1075)\<close>, that is for an argument of at most \<open>-1075 ln 2\<close> (about -745.13).
  Above that the exponential is kept as a real.
\<close>

definition np_exp :: "real \<Rightarrow> real" where
  "np_exp x = (if x \<le> - 1075 * ln 2 then 0 else exp x)"

text \<open>
  \<open>weights = np.exp(- offsetlist ** 2 / sigma ** 2); weights /= weights.sum()\<close>.
  With \<open>sigma = 0\<close> every weight of a non-empty list is NaN (\<open>0/0\<close>, or \<open>exp(-inf) = 0\<close>
  divided by the sum 0): \<open>None\<close>. So it is when every exponential is \<open>0.0\<close>: the sum is
  \<open>0.0\<close>, and numpy divides \<open>0.0\<close> by \<open>0.0\<close> with a warning. An empty array stays empty.
\<close>

definition weights :: "real \<Rightarrow> real list \<Rightarrow> real list option" where
  "weights sg offs =
     (if offs = [] then Some []
      else if sg = 0 then None
      else (let w = map (\<lambda>offset. np_exp (- (offset ^ 2) / sg ^ 2)) offs
            in if sum_list w = 0 then None else Some (map (\<lambda>x. x / sum_list w) w)))"

subsection \<open>Events (\<open>_parse_file\<close>, lines 106 to 128)\<close>

text \<open>
  The dictionaries \<open>D\<close> and \<open>V\<close> are filled in step: \<open>D[t]\<close> gets the time and \<open>V[t]\<close>
  the value of the same event. The model keeps one list of events \<open>(t, dtx, value)\<close> in
  the order of the appends; \<open>D[t]\<close> and \<open>V[t]\<close> are its projections for the tag \<open>t\<close>.
\<close>

type_synonym event = "string \<times> real \<times> real"

text \<open>
  The loop over \<open>zip(weights, offsetlist)\<close> for one tag of one line: the events appended
  and the number of events dropped for their weekday.
\<close>

fun offset_loop :: "config \<Rightarrow> real \<Rightarrow> string \<Rightarrow> real \<Rightarrow> (real \<times> real) list
    \<Rightarrow> failure + (event list \<times> nat)" where
  "offset_loop cfg dt t duration [] = Inr ([], 0)"
| "offset_loop cfg dt t duration ((weight, offset) # rest) =
     (case add_hours dt (offset * interval cfg) of
        Inl e \<Rightarrow> Inl e
      | Inr dtx \<Rightarrow>
          (case offset_loop cfg dt t duration rest of
             Inl e \<Rightarrow> Inl e
           | Inr (evs, n_excluded) \<Rightarrow>
               if weekday dtx \<in> set (skipweekdays cfg) then Inr (evs, n_excluded + 1)
               else Inr ((t, dtx, weight * duration) # evs, n_excluded)))"

text \<open>
  The loop \<open>for t in tags\<close>; \<open>n\<close> is \<open>len(tags)\<close> of the whole list, which is at least 1
  inside the loop.
\<close>

fun tag_loop :: "config \<Rightarrow> real \<Rightarrow> nat \<Rightarrow> (real \<times> real) list \<Rightarrow> string list
    \<Rightarrow> failure + (event list \<times> nat)" where
  "tag_loop cfg dt n kern [] = Inr ([], 0)"
| "tag_loop cfg dt n kern (t # ts) =
     (let duration = (if multitag cfg = ''split'' then interval cfg / real n else interval cfg)
      in case offset_loop cfg dt t duration kern of
           Inl e \<Rightarrow> Inl e
         | Inr (evs, k) \<Rightarrow>
             (case tag_loop cfg dt n kern ts of
                Inl e \<Rightarrow> Inl e
              | Inr (evs', k') \<Rightarrow> Inr (evs @ evs', k + k')))"

text \<open>The fields of a line, and the tags that survive \<open>skiptags\<close>.\<close>

definition fields_of :: "string \<Rightarrow> string list" where
  "fields_of line = re_split (strip_annotation line)"

definition surviving_tags :: "config \<Rightarrow> string \<Rightarrow> string list" where
  "surviving_tags cfg line = filter (\<lambda>x. x \<notin> set (skiptags cfg)) (tl (fields_of line))"

text \<open>The time and the tags of a line: the Sample.\<close>

definition parse_sample :: "config \<Rightarrow> string \<Rightarrow> failure + (real \<times> string list)" where
  "parse_sample cfg line =
     (case py_int (hd (fields_of line)) of
        Inl e \<Rightarrow> Inl e
      | Inr ts \<Rightarrow>
          (case fromtimestamp cfg ts of
             Inl e \<Rightarrow> Inl e
           | Inr dt \<Rightarrow>
               (let tags = surviving_tags cfg line
                in Inr (dt, if multitag cfg = ''first'' then take 1 tags else tags))))"

text \<open>One pass of the loop \<open>for line in handle\<close>: the events of one Sample.\<close>

definition line_events :: "config \<Rightarrow> (real \<times> real) list \<Rightarrow> string
    \<Rightarrow> failure + (event list \<times> nat)" where
  "line_events cfg kern line =
     (case parse_sample cfg line of
        Inl e \<Rightarrow> Inl e
      | Inr (dt, tags) \<Rightarrow> tag_loop cfg dt (length tags) kern tags)"

fun parse_lines :: "config \<Rightarrow> (real \<times> real) list \<Rightarrow> string list
    \<Rightarrow> failure + (event list \<times> nat)" where
  "parse_lines cfg kern [] = Inr ([], 0)"
| "parse_lines cfg kern (line # rest) =
     (case line_events cfg kern line of
        Inl e \<Rightarrow> Inl e
      | Inr (evs, k) \<Rightarrow>
          (case parse_lines cfg kern rest of
             Inl e \<Rightarrow> Inl e
           | Inr (evs', k') \<Rightarrow> Inr (evs @ evs', k + k')))"

text \<open>
  The kernel: the pairs of \<open>zip(weights, offsetlist)\<close>, when the weights are numbers.
\<close>

definition kernel_of :: "config \<Rightarrow> (nat \<Rightarrow> real) \<Rightarrow> failure + (real \<times> real) list" where
  "kernel_of cfg noise =
     (case offsetlist cfg noise of
        Inl e \<Rightarrow> Inl e
      | Inr offs \<Rightarrow>
          (case weights (sigma cfg) offs of
             None \<Rightarrow> Inl NotANumber
           | Some ws \<Rightarrow> Inr (zip ws offs)))"

text \<open>
  The whole loop. With NaN weights the loop still runs and an exception of a line still
  aborts it (no exception depends on a weight); when it ends, the durations are NaN.
\<close>

definition parse_events :: "config \<Rightarrow> (nat \<Rightarrow> real) \<Rightarrow> string list
    \<Rightarrow> failure + (event list \<times> nat)" where
  "parse_events cfg noise handle =
     (case offsetlist cfg noise of
        Inl e \<Rightarrow> Inl e
      | Inr offs \<Rightarrow>
          (case weights (sigma cfg) offs of
             None \<Rightarrow>
               (case parse_lines cfg (zip (map (\<lambda>_. 0) offs) offs) handle of
                  Inl e \<Rightarrow> Inl e
                | Inr _ \<Rightarrow> Inl NotANumber)
           | Some ws \<Rightarrow> parse_lines cfg (zip ws offs) handle))"

definition durations :: "event list \<Rightarrow> real list" where
  "durations evs = map (\<lambda>(t, dtx, v). v) evs"

definition tag_events :: "string \<Rightarrow> event list \<Rightarrow> event list" where
  "tag_events g evs = filter (\<lambda>(t, dtx, v). t = g) evs"

subsection \<open>The Observation Table (\<open>pd.DataFrame\<close>)\<close>

text \<open>
  A table has a row per index entry and a cell per row and column; \<open>None\<close> is NaN, the
  cell of a tag without an event at that time.
\<close>

record frame =
  index :: "real list"
  columns :: "string list"
  cells :: "real option list list"

text \<open>\<open>pd.Series(V[f], index=D[f])\<close>, as the list of its (time, value) pairs.\<close>

definition series :: "event list \<Rightarrow> string \<Rightarrow> (real \<times> real) list" where
  "series evs f = map (\<lambda>(t, dtx, v). (dtx, v)) (tag_events f evs)"

text \<open>
  \<open>pd.DataFrame(D)\<close> for a dictionary of Series: the columns are the keys in sorted
  order. When all Series have the same index, that index is kept as it is. Otherwise the
  index is the sorted union of the indexes and every Series is aligned to it, which pandas
  refuses for a Series whose index holds a time twice.
\<close>

definition DataFrame :: "event list \<Rightarrow> failure + frame" where
  "DataFrame evs =
     (let keys = sort (remdups (map fst evs));
          ss = map (series evs) keys;
          ixs = map (map fst) ss
      in if keys = [] then Inr \<lparr>index = [], columns = [], cells = []\<rparr>
         else if list_all (\<lambda>ix. ix = hd ixs) ixs
         then Inr \<lparr>index = hd ixs, columns = keys,
                   cells = map (\<lambda>i. map (\<lambda>s. Some (snd (s ! i))) ss) [0..<length (hd ixs)]\<rparr>
         else if list_ex (\<lambda>ix. \<not> distinct ix) ixs then Inl ReindexError
         else (let ix = sort (remdups (concat ixs))
               in Inr \<lparr>index = ix, columns = keys,
                       cells = map (\<lambda>t. map (\<lambda>s. map_of s t) ss) ix\<rparr>))"

text \<open>\<open>_parse_file\<close>: the table \<open>self.D\<close> and the printed count of excluded entries.\<close>

definition parse_file :: "config \<Rightarrow> (nat \<Rightarrow> real) \<Rightarrow> string list \<Rightarrow> failure + (frame \<times> nat)" where
  "parse_file cfg noise handle =
     (case parse_events cfg noise handle of
        Inl e \<Rightarrow> Inl e
      | Inr (evs, n_excluded) \<Rightarrow>
          (case DataFrame evs of
             Inl e \<Rightarrow> Inl e
           | Inr D \<Rightarrow> Inr (D, n_excluded)))"

subsection \<open>Operations of pandas on a table\<close>

text \<open>The positions of the columns labelled \<open>c\<close>; \<open>D[c]\<close> is the first of them.\<close>

definition positions :: "string list \<Rightarrow> string \<Rightarrow> nat list" where
  "positions cols c = filter (\<lambda>i. cols ! i = c) [0..<length cols]"

definition column :: "frame \<Rightarrow> string \<Rightarrow> real option list" where
  "column D c = map (\<lambda>row. row ! hd (positions (columns D) c)) (cells D)"

text \<open>A sum that skips NaN, and the sum of pandas: NaN when there is nothing to add.\<close>

definition nansum :: "real option list \<Rightarrow> real" where
  "nansum xs = sum_list (map (\<lambda>x. case x of None \<Rightarrow> 0 | Some v \<Rightarrow> v) xs)"

definition pd_sum :: "real option list \<Rightarrow> real option" where
  "pd_sum xs = (if list_all (\<lambda>x. x = None) xs then None else Some (nansum xs))"

definition pd_mean :: "real option list \<Rightarrow> real option" where
  "pd_mean xs =
     (if list_all (\<lambda>x. x = None) xs then None
      else Some (nansum xs / real (length (filter (\<lambda>x. x \<noteq> None) xs))))"

text \<open>
  Division of floats: \<open>0/0\<close> is NaN and \<open>x/0\<close> an infinity; neither is a real number,
  both are \<open>None\<close>.
\<close>

definition pd_div :: "real option \<Rightarrow> real option \<Rightarrow> real option" where
  "pd_div x y = (case (x, y) of (Some a, Some b) \<Rightarrow> if b = 0 then None else Some (a / b)
     | _ \<Rightarrow> None)"

text \<open>\<open>D[tags]\<close> for a list of labels: a new table; \<open>KeyError\<close> for a label that is no column.\<close>

definition select :: "frame \<Rightarrow> string list \<Rightarrow> failure + frame" where
  "select D tags =
     (case filter (\<lambda>t. t \<notin> set (columns D)) tags of
        m # _ \<Rightarrow> Inl (KeyError m)
      | [] \<Rightarrow>
          (let ps = concat (map (positions (columns D)) tags)
           in Inr \<lparr>index = index D, columns = map (\<lambda>p. columns D ! p) ps,
                   cells = map (\<lambda>row. map (\<lambda>p. row ! p) ps) (cells D)\<rparr>))"

text \<open>\<open>D.sum(axis=1)\<close>: one sum per row.\<close>

definition row_sums :: "frame \<Rightarrow> real option list" where
  "row_sums D = map pd_sum (cells D)"

text \<open>\<open>D[name] = values\<close>: replaces the column of that label, or appends a new one.\<close>

definition set_column :: "frame \<Rightarrow> string \<Rightarrow> real option list \<Rightarrow> frame" where
  "set_column D name vs =
     (case positions (columns D) name of
        [] \<Rightarrow> D\<lparr>columns := columns D @ [name],
                 cells := map (\<lambda>(row, v). row @ [v]) (zip (cells D) vs)\<rparr>
      | p # _ \<Rightarrow> D\<lparr>cells := map (\<lambda>(row, v). row[p := v]) (zip (cells D) vs)\<rparr>)"

text \<open>
  \<open>D.resample('D', how='sum', label='left')\<close>: one row per calendar day from the day of
  the earliest to the day of the latest index entry, labelled by the start of the day;
  a cell is the sum of the column's values of that day, NaN when the day has none.
\<close>

definition list_min :: "real list \<Rightarrow> real" where
  "list_min xs = fold min (tl xs) (hd xs)"

definition list_max :: "real list \<Rightarrow> real" where
  "list_max xs = fold max (tl xs) (hd xs)"

definition rows_of_day :: "frame \<Rightarrow> int \<Rightarrow> real option list list" where
  "rows_of_day D d = map snd (filter (\<lambda>(t, row). day_of t = d) (zip (index D) (cells D)))"

definition resample_sum :: "frame \<Rightarrow> frame" where
  "resample_sum D =
     (if index D = [] then \<lparr>index = [], columns = columns D, cells = []\<rparr>
      else (let days = [day_of (list_min (index D)) .. day_of (list_max (index D))]
            in \<lparr>index = map (\<lambda>d. real_of_int d * 86400) days, columns = columns D,
                 cells = map (\<lambda>d. map (\<lambda>j. pd_sum (map (\<lambda>row. row ! j) (rows_of_day D d)))
                                  [0..<length (columns D)]) days\<rparr>))"

text \<open>\<open>D.fillna(0)\<close>.\<close>

definition fillna0 :: "frame \<Rightarrow> frame" where
  "fillna0 D = D\<lparr>cells := map (map (\<lambda>x. case x of None \<Rightarrow> Some 0 | Some v \<Rightarrow> Some v)) (cells D)\<rparr>"

text \<open>\<open>D.sum()\<close> and \<open>D.mean()\<close>: one value per column.\<close>

definition column_sums :: "frame \<Rightarrow> real option list" where
  "column_sums D = map (\<lambda>j. pd_sum (map (\<lambda>row. row ! j) (cells D))) [0..<length (columns D)]"

definition column_means :: "frame \<Rightarrow> real option list" where
  "column_means D = map (\<lambda>j. pd_mean (map (\<lambda>row. row ! j) (cells D))) [0..<length (columns D)]"

text \<open>
  \<open>D / D.sum(axis=1)\<close> on a time-indexed table: every cell divided by the sum of its row.
\<close>

definition div_by_row_sums :: "frame \<Rightarrow> frame" where
  "div_by_row_sums D = D\<lparr>cells := map (\<lambda>row. map (\<lambda>x. pd_div x (pd_sum row)) row) (cells D)\<rparr>"

text \<open>
  \<open>D.groupby(D.index.weekday, sort=True).mean()\<close>: one row per weekday that occurs, in
  ascending order, with the mean of each column over the rows of that weekday.
\<close>

definition rows_of_weekday :: "frame \<Rightarrow> int \<Rightarrow> real option list list" where
  "rows_of_weekday D w = map snd (filter (\<lambda>(t, row). weekday t = w) (zip (index D) (cells D)))"

definition groupby_weekday_mean :: "frame \<Rightarrow> frame" where
  "groupby_weekday_mean D =
     (let ws = sort (remdups (map weekday (index D)))
      in \<lparr>index = map real_of_int ws, columns = columns D,
           cells = map (\<lambda>w. map (\<lambda>j. pd_mean (map (\<lambda>row. row ! j) (rows_of_weekday D w)))
                            [0..<length (columns D)]) ws\<rparr>)"




subsection \<open>\<open>TagTimeLog.__init__\<close>\<close>


subsection \<open>\<open>top_n_tags\<close>\<close>

text \<open>\<open>keys[:n]\<close>; a negative \<open>n\<close> counts from the end.\<close>

definition py_take :: "int \<Rightarrow> 'a list \<Rightarrow> 'a list" where
  "py_take n xs = (if 0 \<le> n then take (nat n) xs else take (length xs - nat (- n)) xs)"

text \<open>The loop over \<open>extra_tags\<close>.\<close>

definition add_extra :: "string list \<Rightarrow> string list \<Rightarrow> string list" where
  "add_extra keys extra_tags =
     foldl (\<lambda>keys x. if x \<in> set keys then keys else keys @ [x]) keys extra_tags"

text \<open>
  \<open>D = self.D.resample('D', how='sum', label='left').sum()\<close>: the total of a tag is the
  sum over the days of its daily sums. A column without any value has the total NaN, and
  sorting by a NaN key has no specified result: \<open>NotANumber\<close>.
\<close>

definition day_totals :: "frame \<Rightarrow> real option list" where
  "day_totals selfD = column_sums (resample_sum selfD)"

definition day_total :: "frame \<Rightarrow> string \<Rightarrow> real" where
  "day_total selfD x =
     (case day_totals selfD ! hd (positions (columns selfD) x) of None \<Rightarrow> 0 | Some v \<Rightarrow> v)"

text \<open>
  \<open>sorted(D.keys(), key=lambda x: D[x], reverse=True)\<close>: a stable sort, descending.
\<close>

definition ranked :: "frame \<Rightarrow> string list" where
  "ranked selfD = sort_key (\<lambda>x. - day_total selfD x) (columns selfD)"

definition top_n_tags :: "frame \<Rightarrow> int \<Rightarrow> string list option \<Rightarrow> failure + string list" where
  "top_n_tags selfD n extra_tags =
     (if list_ex (\<lambda>v. v = None) (day_totals selfD) then Inl NotANumber
      else (let keys = py_take n (ranked selfD)
            in case extra_tags of
                 None \<Rightarrow> Inr keys
               | Some extra \<Rightarrow> Inr (add_extra keys extra)))"

subsection \<open>The views\<close>

text \<open>
  In a view the variable \<open>D\<close> is bound by \<open>D = self.D[tags] if tags is not None else
  self.D\<close>: it names either a table of its own or the very object \<open>self.D\<close>. An update
  in place of \<open>D\<close> (\<open>D['other'] = ...\<close>, \<open>D.rename(..., inplace=True)\<close>) then changes
  \<open>self.D\<close> in the second case. A view returns \<open>self.D\<close> as it is after the call
  together with the table it plots.
\<close>

datatype local = Alias | Fresh frame

definition deref :: "frame \<Rightarrow> local \<Rightarrow> frame" where
  "deref selfD D = (case D of Alias \<Rightarrow> selfD | Fresh d \<Rightarrow> d)"

definition update_local :: "frame \<Rightarrow> local \<Rightarrow> (frame \<Rightarrow> frame) \<Rightarrow> frame \<times> local" where
  "update_local selfD D f = (case D of Alias \<Rightarrow> (f selfD, Alias) | Fresh d \<Rightarrow> (selfD, Fresh (f d)))"

text \<open>\<open>if top_n is not None: tags = self.top_n_tags(top_n, tags)\<close>.\<close>

definition resolve_top_n :: "frame \<Rightarrow> string list option \<Rightarrow> int option
    \<Rightarrow> failure + string list option" where
  "resolve_top_n selfD tags top_n =
     (case top_n of
        None \<Rightarrow> Inr tags
      | Some n \<Rightarrow> (case top_n_tags selfD n tags of Inl e \<Rightarrow> Inl e | Inr keys \<Rightarrow> Inr (Some keys)))"

text \<open>\<open>D = self.D[tags] if tags is not None else self.D\<close>.\<close>

definition view_select :: "frame \<Rightarrow> string list option \<Rightarrow> failure + local" where
  "view_select selfD tags =
     (case tags of
        None \<Rightarrow> Inr Alias
      | Some ts \<Rightarrow> (case select selfD ts of Inl e \<Rightarrow> Inl e | Inr d \<Rightarrow> Inr (Fresh d)))"

text \<open>
  \<open>self.D[[t for t in self.D.keys() if t not in tags]].sum(axis=1)\<close>; \<open>t not in None\<close>
  is a \<open>TypeError\<close>, raised for the first key.
\<close>

definition other_column :: "frame \<Rightarrow> string list option \<Rightarrow> failure + real option list" where
  "other_column selfD tags =
     (case (case tags of
              None \<Rightarrow> if columns selfD = [] then Inr [] else Inl TypeError
            | Some ts \<Rightarrow> Inr (filter (\<lambda>t. t \<notin> set ts) (columns selfD))) of
        Inl e \<Rightarrow> Inl e
      | Inr rest \<Rightarrow> (case select selfD rest of Inl e \<Rightarrow> Inl e | Inr d \<Rightarrow> Inr (row_sums d)))"

text \<open>\<open>if other: D['other'] = ...\<close>.\<close>

definition inject_other :: "frame \<Rightarrow> local \<Rightarrow> string list option \<Rightarrow> bool
    \<Rightarrow> failure + (frame \<times> local)" where
  "inject_other selfD D tags other =
     (if other
      then (case other_column selfD tags of
              Inl e \<Rightarrow> Inl e
            | Inr vs \<Rightarrow> Inr (update_local selfD D (\<lambda>d. set_column d ''other'' vs)))
      else Inr (selfD, D))"

text \<open>
  \<open>_obfuscate\<close>: every key but \<open>'other'\<close> is renamed, in place, to a fresh random
  string \<open>rnd i\<close> (the \<open>i\<close>-th name drawn). The keys are read once, before the loop.
\<close>

fun obfuscate_loop :: "string list \<Rightarrow> (nat \<Rightarrow> string) \<Rightarrow> nat \<Rightarrow> string list \<Rightarrow> string list" where
  "obfuscate_loop [] rnd i cols = cols"
| "obfuscate_loop (k # keys) rnd i cols =
     (if k = ''other'' then obfuscate_loop keys rnd i cols
      else obfuscate_loop keys rnd (Suc i) (map (\<lambda>c. if c = k then rnd i else c) cols))"

definition obfuscate_frame :: "config \<Rightarrow> (nat \<Rightarrow> string) \<Rightarrow> frame \<Rightarrow> frame" where
  "obfuscate_frame cfg rnd D =
     (if obfuscate cfg then D\<lparr>columns := obfuscate_loop (columns D) rnd 0 (columns D)\<rparr> else D)"

text \<open>
  \<open>pie\<close>: the wedges are the tags with the mean of their daily sums, largest first.
  Without any row every mean is NaN and no wedge is left.
\<close>

definition pie :: "config \<Rightarrow> (nat \<Rightarrow> string) \<Rightarrow> frame \<Rightarrow> string list option \<Rightarrow> int option
    \<Rightarrow> bool \<Rightarrow> failure + (frame \<times> (string \<times> real) list)" where
  "pie cfg rnd selfD tags top_n other =
     (case resolve_top_n selfD tags top_n of
        Inl e \<Rightarrow> Inl e
      | Inr tags1 \<Rightarrow>
     (case view_select selfD tags1 of
        Inl e \<Rightarrow> Inl e
      | Inr D \<Rightarrow>
     (case inject_other selfD D tags1 other of
        Inl e \<Rightarrow> Inl e
      | Inr (selfD1, D1) \<Rightarrow>
          (let (selfD2, D2) = update_local selfD1 D1 (obfuscate_frame cfg rnd);
               d = deref selfD2 D2;
               means = column_means (fillna0 (resample_sum d));
               wedges = concat (map (\<lambda>(k, m). case m of None \<Rightarrow> [] | Some v \<Rightarrow> [(k, v)])
                                    (zip (columns d) means))
           in Inr (selfD2, sort_key (\<lambda>(k, v). - v) wedges)))))"

text \<open>
  \<open>day_of_the_week_sums\<close>. Without tags the call \<open>self.top_n_tags(1000)\<close> lacks an
  argument: \<open>TypeError\<close>. The loop \<open>for k in D.keys(): D[k] = D[k] * 24 / V\<close> rescales
  one column after the other by the row sums \<open>V\<close> taken before the loop.
\<close>

definition rescale_column :: "real \<Rightarrow> real option list \<Rightarrow> frame \<Rightarrow> string \<Rightarrow> frame" where
  "rescale_column c V D k =
     set_column D k (map (\<lambda>(x, v). pd_div (map_option (\<lambda>a. a * c) x) v) (zip (column D k) V))"

definition day_of_the_week_sums :: "config \<Rightarrow> (nat \<Rightarrow> string) \<Rightarrow> frame \<Rightarrow> string list option
    \<Rightarrow> int option \<Rightarrow> bool \<Rightarrow> failure + (frame \<times> frame)" where
  "day_of_the_week_sums cfg rnd selfD tags top_n other =
     (case resolve_top_n selfD tags top_n of
        Inl e \<Rightarrow> Inl e
      | Inr tags1 \<Rightarrow>
     (case tags1 of
        None \<Rightarrow> Inl TypeError
      | Some ts \<Rightarrow>
     (case view_select selfD (Some ts) of
        Inl e \<Rightarrow> Inl e
      | Inr D \<Rightarrow>
     (case inject_other selfD D (Some ts) other of
        Inl e \<Rightarrow> Inl e
      | Inr (selfD1, D1) \<Rightarrow>
          (let d1 = fillna0 (resample_sum (deref selfD1 D1));
               d2 = div_by_row_sums d1;
               d3 = groupby_weekday_mean d2;
               V = row_sums d3;
               d4 = fold (\<lambda>k d. rescale_column 24 V d k) (columns d3) d3
           in Inr (selfD1, obfuscate_frame cfg rnd d4))))))"

text \<open>A table with the single column \<open>g\<close>, given as the Series of that column.\<close>

definition one_column :: "string \<Rightarrow> (real \<times> real) list \<Rightarrow> frame" where
  "one_column g s = \<lparr>index = map fst s, columns = [g], cells = map (\<lambda>p. [Some (snd p)]) s\<rparr>"

subsection \<open>Logs for the scenarios\<close>

text \<open>
  \<open>str(i)\<close> of an integer, and a log line \<open>"<timestamp> <tag> ... <tag>"\<close> without
  annotation and without a newline at its end.
\<close>

definition digit_char :: "nat \<Rightarrow> char" where
  "digit_char d = char_of (48 + d)"

fun str_nat :: "nat \<Rightarrow> string" where
  "str_nat n = (if n < 10 then [digit_char n] else str_nat (n div 10) @ [digit_char (n mod 10)])"

definition str_int :: "int \<Rightarrow> string" where
  "str_int i = (if i < 0 then CHR ''-'' # str_nat (nat (- i)) else str_nat (nat i))"

definition log_line :: "int \<Rightarrow> string list \<Rightarrow> string" where
  "log_line ts tags = str_int ts @ concat (map (\<lambda>g. CHR '' '' # g) tags)"

text \<open>A tag of such a line: not empty, without white space and without an opening bracket.\<close>

definition plain_tag :: "string \<Rightarrow> bool" where
  "plain_tag g \<longleftrightarrow> g \<noteq> [] \<and> list_all (\<lambda>c. \<not> is_space c \<and> c \<noteq> CHR ''['') g"

text \<open>Pings every \<open>step\<close> seconds from \<open>t0\<close> on, \<open>n\<close> of them, all with the one tag.\<close>

definition uniform_log :: "int \<Rightarrow> int \<Rightarrow> nat \<Rightarrow> string \<Rightarrow> string list" where
  "uniform_log t0 step n g = map (\<lambda>k. log_line (t0 + int k * step) [g]) [0..<n]"

declare str_nat.simps [simp del]

section \<open>Properties\<close>

subsection \<open>Events of one Sample without smoothing\<close>

text \<open>Unfolding the parsing of a concrete line.\<close>

lemmas line_eval = fields_of_def is_annotation_def is_space_def py_int_def is_int_literal_def
  is_digit_def less_eq_char_def digits_val_def digit_val_def fromtimestamp_def
  in_datetime_range_def datetime_min_def datetime_max_def surviving_tags_def parse_sample_def
  weekday_def day_of_def default_config_def

lemma np_exp_zero [simp]: "np_exp 0 = 1"
  by (simp add: np_exp_def)

lemma np_exp_nonneg: "0 \<le> np_exp x"
  by (simp add: np_exp_def)

lemma np_exp_pos: "- 1075 * ln 2 < x \<Longrightarrow> 0 < np_exp x"
  by (simp add: np_exp_def)

lemma kernel_of_no_smooth:
  assumes "\<not> smooth cfg" and "sigma cfg \<noteq> 0"
  shows "kernel_of cfg noise = Inr [(1, 0)]"
  using assms by (simp add: kernel_of_def offsetlist_def weights_def)

lemma offset_loop_single:
  assumes "in_datetime_range dt"
  shows "offset_loop cfg dt t d [(1, 0)] =
           (if weekday dt \<in> set (skipweekdays cfg) then Inr ([], 1) else Inr ([(t, dt, d)], 0))"
  using assms by (simp add: add_hours_def)

lemma tag_loop_single:
  assumes "in_datetime_range dt" and "weekday dt \<notin> set (skipweekdays cfg)"
  shows "tag_loop cfg dt n [(1, 0)] ts =
           Inr (map (\<lambda>t. (t, dt, if multitag cfg = ''split'' then interval cfg / real n
                                   else interval cfg)) ts, 0)"
  using assms by (induction ts) (simp_all add: offset_loop_single Let_def del: offset_loop.simps)

lemma tag_loop_excluded:
  assumes "in_datetime_range dt" and "weekday dt \<in> set (skipweekdays cfg)"
  shows "tag_loop cfg dt n [(1, 0)] ts = Inr ([], length ts)"
  using assms by (induction ts) (simp_all add: offset_loop_single Let_def del: offset_loop.simps)

lemma parse_sample_range:
  assumes "parse_sample cfg line = Inr (dt, tags)"
  shows "in_datetime_range dt"
  using assms
  by (auto simp: parse_sample_def fromtimestamp_def Let_def split: sum.splits if_splits)

lemma parse_sample_tags:
  assumes "parse_sample cfg line = Inr (dt, tags)"
  shows "tags = (if multitag cfg = ''first'' then take 1 (surviving_tags cfg line)
                 else surviving_tags cfg line)"
  using assms
  by (auto simp: parse_sample_def fromtimestamp_def Let_def split: sum.splits if_splits)

lemma durations_map:
  "durations (map (\<lambda>t. (t, dt, d)) ts) = replicate (length ts) d"
  by (induction ts) (simp_all add: durations_def)

lemma sum_list_replicate_real: "sum_list (replicate n (d::real)) = real n * d"
  by (induction n) (simp_all add: algebra_simps)

lemma tag_events_map:
  "durations (tag_events g (map (\<lambda>t. (t, dt, d)) ts)) = replicate (count_list ts g) d"
  by (induction ts) (simp_all add: durations_def tag_events_def)


text \<open>
  C1 (as amended). For every parsed Sample whose tag list is non-empty after the excluded
  tags are removed and whose weekday is not excluded, with smoothing disabled, a sigma other
  than 0 and the multitag mode \<open>first\<close> or \<open>split\<close>, the durations of the events emitted
  for that Sample add up to exactly the configured interval.
\<close>

theorem sample_durations_sum_to_interval:
  assumes "\<not> smooth cfg" and "sigma cfg \<noteq> 0"
    and "multitag cfg = ''first'' \<or> multitag cfg = ''split''"
    and "parse_sample cfg line = Inr (dt, tags)"
    and "surviving_tags cfg line \<noteq> []"
    and "weekday dt \<notin> set (skipweekdays cfg)"
  shows "\<exists>kern evs. kernel_of cfg noise = Inr kern
           \<and> line_events cfg kern line = Inr (evs, 0)
           \<and> sum_list (durations evs) = interval cfg"
proof -
  let ?d = "if multitag cfg = ''split'' then interval cfg / real (length tags) else interval cfg"
  let ?evs = "map (\<lambda>t. (t, dt, ?d)) tags"
  have k: "kernel_of cfg noise = Inr [(1, 0)]"
    using assms(1,2) by (rule kernel_of_no_smooth)
  have r: "in_datetime_range dt"
    using assms(4) by (rule parse_sample_range)
  have l: "line_events cfg [(1, 0)] line = Inr (?evs, 0)"
    using assms(4,6) r by (simp add: line_events_def tag_loop_single)
  have t: "tags = (if multitag cfg = ''first'' then take 1 (surviving_tags cfg line)
                   else surviving_tags cfg line)"
    using assms(4) by (rule parse_sample_tags)
  have n: "tags \<noteq> []"
    using t assms(5) by (cases "surviving_tags cfg line") (auto split: if_splits)
  have "sum_list (durations ?evs) = real (length tags) * ?d"
    by (simp only: durations_map sum_list_replicate_real)
  also have "\<dots> = interval cfg"
  proof (cases "multitag cfg = ''split''")
    case True
    with n show ?thesis by simp
  next
    case False
    with assms(3) have f: "multitag cfg = ''first''" by simp
    with t assms(5) have "length tags = 1"
      by (cases "surviving_tags cfg line") simp_all
    with False show ?thesis by simp
  qed
  finally have "sum_list (durations ?evs) = interval cfg" .
  with k l show ?thesis by blast
qed


theorem sample_durations_sum_to_interval_witness:
  "\<not> smooth (default_config\<lparr>smooth := False, multitag := ''split''\<rparr>)
   \<and> parse_sample (default_config\<lparr>smooth := False, multitag := ''split''\<rparr>) ''0 a b''
        = Inr (0, [''a'', ''b''])
   \<and> surviving_tags (default_config\<lparr>smooth := False, multitag := ''split''\<rparr>) ''0 a b'' \<noteq> []
   \<and> weekday 0 \<notin> set (skipweekdays (default_config\<lparr>smooth := False, multitag := ''split''\<rparr>))
   \<and> (\<exists>kern evs. kernel_of (default_config\<lparr>smooth := False, multitag := ''split''\<rparr>) (\<lambda>_. 0) = Inr kern
         \<and> line_events (default_config\<lparr>smooth := False, multitag := ''split''\<rparr>) kern ''0 a b''
             = Inr (evs, 0)
         \<and> sum_list (durations evs) = 3 / 4)"
proof -
  let ?c = "default_config\<lparr>smooth := False, multitag := ''split''\<rparr>"
  have p: "parse_sample ?c ''0 a b'' = Inr (0, [''a'', ''b''])"
    by (simp add: line_eval)
  have s: "surviving_tags ?c ''0 a b'' \<noteq> []"
    by (simp add: line_eval)
  have w: "weekday 0 \<notin> set (skipweekdays ?c)"
    by (simp add: default_config_def)
  have "\<exists>kern evs. kernel_of ?c (\<lambda>_. 0) = Inr kern \<and> line_events ?c kern ''0 a b'' = Inr (evs, 0)
          \<and> sum_list (durations evs) = interval ?c"
    using p s w by (intro sample_durations_sum_to_interval) (simp_all add: default_config_def)
  then show ?thesis using p s w by (simp add: default_config_def)
qed


text \<open>
  The claim as stated lacks the condition on the weekday: a ping of Thursday 1970-01-01
  with Thursday excluded has a tag left after filtering and emits no event at all.
\<close>

theorem sample_durations_counterexample:
  "\<not> smooth (default_config\<lparr>smooth := False, skipweekdays := [3]\<rparr>)
   \<and> multitag (default_config\<lparr>smooth := False, skipweekdays := [3]\<rparr>) = ''first''
   \<and> surviving_tags (default_config\<lparr>smooth := False, skipweekdays := [3]\<rparr>) ''0 work'' = [''work'']
   \<and> kernel_of (default_config\<lparr>smooth := False, skipweekdays := [3]\<rparr>) (\<lambda>_. 0) = Inr [(1, 0)]
   \<and> line_events (default_config\<lparr>smooth := False, skipweekdays := [3]\<rparr>) [(1, 0)] ''0 work''
        = Inr ([], 1)
   \<and> sum_list (durations []) \<noteq> interval (default_config\<lparr>smooth := False, skipweekdays := [3]\<rparr>)"
  by (simp add: line_eval line_events_def kernel_of_def offsetlist_def weights_def add_hours_def durations_def)


text \<open>
  C10. Repeated tags of a line are processed per occurrence: with smoothing disabled (and
  sigma other than 0), the weekday not excluded and a multitag mode other than \<open>first\<close>,
  a tag that occurs \<open>k\<close> times among the \<open>n\<close> surviving tag occurrences of a line gets
  \<open>k * (interval / n)\<close> from that line under \<open>split\<close> and \<open>k * interval\<close> otherwise
  (\<open>double\<close>).
\<close>

theorem repeated_tags_count_per_occurrence:
  assumes "\<not> smooth cfg" and "sigma cfg \<noteq> 0"
    and "multitag cfg \<noteq> ''first''"
    and "parse_sample cfg line = Inr (dt, tags)"
    and "weekday dt \<notin> set (skipweekdays cfg)"
  shows "\<exists>kern evs. kernel_of cfg noise = Inr kern
           \<and> line_events cfg kern line = Inr (evs, 0)
           \<and> tags = surviving_tags cfg line
           \<and> sum_list (durations (tag_events g evs)) =
               (if multitag cfg = ''split''
                then real (count_list tags g) * (interval cfg / real (length tags))
                else real (count_list tags g) * interval cfg)"
proof -
  let ?d = "if multitag cfg = ''split'' then interval cfg / real (length tags) else interval cfg"
  let ?evs = "map (\<lambda>t. (t, dt, ?d)) tags"
  have k: "kernel_of cfg noise = Inr [(1, 0)]"
    using assms(1,2) by (rule kernel_of_no_smooth)
  have r: "in_datetime_range dt"
    using assms(4) by (rule parse_sample_range)
  have l: "line_events cfg [(1, 0)] line = Inr (?evs, 0)"
    using assms(4,5) r by (simp add: line_events_def tag_loop_single)
  have t: "tags = surviving_tags cfg line"
    using parse_sample_tags [OF assms(4)] assms(3) by simp
  have "sum_list (durations (tag_events g ?evs)) = real (count_list tags g) * ?d"
    by (simp only: tag_events_map sum_list_replicate_real)
  then have "sum_list (durations (tag_events g ?evs)) =
               (if multitag cfg = ''split''
                then real (count_list tags g) * (interval cfg / real (length tags))
                else real (count_list tags g) * interval cfg)"
    by simp
  with k l t show ?thesis by blast
qed


theorem repeated_tags_count_per_occurrence_witness:
  "\<not> smooth (default_config\<lparr>smooth := False, multitag := ''split''\<rparr>)
   \<and> parse_sample (default_config\<lparr>smooth := False, multitag := ''split''\<rparr>) ''0 a b a''
        = Inr (0, [''a'', ''b'', ''a''])
   \<and> weekday 0 \<notin> set (skipweekdays (default_config\<lparr>smooth := False, multitag := ''split''\<rparr>))
   \<and> (\<exists>kern evs. kernel_of (default_config\<lparr>smooth := False, multitag := ''split''\<rparr>) (\<lambda>_. 0) = Inr kern
         \<and> line_events (default_config\<lparr>smooth := False, multitag := ''split''\<rparr>) kern ''0 a b a''
             = Inr (evs, 0)
         \<and> sum_list (durations (tag_events ''a'' evs)) = 1 / 2)"
proof -
  let ?c = "default_config\<lparr>smooth := False, multitag := ''split''\<rparr>"
  have p: "parse_sample ?c ''0 a b a'' = Inr (0, [''a'', ''b'', ''a''])"
    by (simp add: line_eval)
  have w: "weekday 0 \<notin> set (skipweekdays ?c)"
    by (simp add: default_config_def)
  have "\<exists>kern evs. kernel_of ?c (\<lambda>_. 0) = Inr kern \<and> line_events ?c kern ''0 a b a'' = Inr (evs, 0)
          \<and> [''a'', ''b'', ''a''] = surviving_tags ?c ''0 a b a''
          \<and> sum_list (durations (tag_events ''a'' evs)) =
              (if multitag ?c = ''split''
               then real (count_list [''a'', ''b'', ''a''] ''a'')
                      * (interval ?c / real (length [''a'', ''b'', ''a'']))
               else real (count_list [''a'', ''b'', ''a''] ''a'') * interval ?c)"
    using p w by (intro repeated_tags_count_per_occurrence) (simp_all add: default_config_def)
  then show ?thesis using p w by (auto simp: default_config_def)
qed

text \<open>
  With smoothing disabled (and sigma other than 0), a Sample whose weekday is excluded
  emits no event, and the count of excluded entries grows by one for each of its tags.
\<close>

theorem excluded_weekday_emits_nothing:
  assumes "\<not> smooth cfg" and "sigma cfg \<noteq> 0"
    and "parse_sample cfg line = Inr (dt, tags)"
    and "weekday dt \<in> set (skipweekdays cfg)"
  shows "kernel_of cfg noise = Inr [(1, 0)]
         \<and> line_events cfg [(1, 0)] line = Inr ([], length tags)"
proof -
  have "in_datetime_range dt" using assms(3) by (rule parse_sample_range)
  then have "line_events cfg [(1, 0)] line = Inr ([], length tags)"
    using assms(3,4) by (simp add: line_events_def tag_loop_excluded)
  moreover have "kernel_of cfg noise = Inr [(1, 0)]"
    using assms(1,2) by (rule kernel_of_no_smooth)
  ultimately show ?thesis by simp
qed

theorem excluded_weekday_emits_nothing_witness:
  "\<not> smooth (default_config\<lparr>smooth := False, multitag := ''split'', skipweekdays := [3]\<rparr>)
   \<and> parse_sample (default_config\<lparr>smooth := False, multitag := ''split'', skipweekdays := [3]\<rparr>)
        ''0 a b'' = Inr (0, [''a'', ''b''])
   \<and> weekday 0 \<in> set (skipweekdays
        (default_config\<lparr>smooth := False, multitag := ''split'', skipweekdays := [3]\<rparr>))
   \<and> line_events (default_config\<lparr>smooth := False, multitag := ''split'', skipweekdays := [3]\<rparr>)
        [(1, 0)] ''0 a b'' = Inr ([], 2)"
proof -
  let ?c = "default_config\<lparr>smooth := False, multitag := ''split'', skipweekdays := [3]\<rparr>"
  have h: "\<not> smooth ?c" "sigma ?c \<noteq> 0" by (simp_all add: default_config_def)
  have p: "parse_sample ?c ''0 a b'' = Inr (0, [''a'', ''b''])" by (simp add: line_eval)
  have w: "weekday 0 \<in> set (skipweekdays ?c)" by (simp add: default_config_def weekday_def day_of_def)
  from excluded_weekday_emits_nothing [OF h p w] h p w show ?thesis by simp
qed

subsection \<open>The lines of a log\<close>

text \<open>
  \<open>int(str(i)) = i\<close>, and the fields of a line built from a timestamp and plain tags
  are that timestamp and those tags.
\<close>

lemma of_char_digit_char: "d < 10 \<Longrightarrow> of_char (digit_char d) = (48 + d :: nat)"
  by (simp add: digit_char_def)

lemma is_digit_iff: "is_digit c \<longleftrightarrow> 48 \<le> (of_char c :: nat) \<and> (of_char c :: nat) \<le> 57"
  by (simp add: is_digit_def less_eq_char_def)

lemma is_digit_plain:
  assumes "is_digit c"
  shows "\<not> is_space c \<and> c \<noteq> CHR ''['' \<and> c \<noteq> CHR ''-'' \<and> c \<noteq> CHR ''+''"
proof -
  from assms have "48 \<le> (of_char c :: nat)" and "(of_char c :: nat) \<le> 57"
    by (simp_all add: is_digit_iff)
  then show ?thesis by (auto simp: is_space_def)
qed

lemma digit_char_props:
  assumes "d < 10"
  shows "is_digit (digit_char d)" and "digit_val (digit_char d) = int d"
  using assms by (simp_all add: is_digit_iff of_char_digit_char digit_val_def)

lemma str_nat_nonempty: "str_nat n \<noteq> []"
  by (subst str_nat.simps) simp

lemma str_nat_digits: "list_all is_digit (str_nat n)"
proof (induction n rule: str_nat.induct)
  case (1 n)
  show ?case
  proof (cases "n < 10")
    case True
    then show ?thesis by (subst str_nat.simps) (simp add: digit_char_props)
  next
    case False
    with "1.IH" show ?thesis by (subst str_nat.simps) (simp add: digit_char_props)
  qed
qed

lemma digits_val_snoc: "digits_val (xs @ [c]) = 10 * digits_val xs + digit_val c"
  by (simp add: digits_val_def)

lemma digits_val_str_nat: "digits_val (str_nat n) = int n"
proof (induction n rule: str_nat.induct)
  case (1 n)
  show ?case
  proof (cases "n < 10")
    case True
    then show ?thesis by (subst str_nat.simps) (simp add: digit_char_props digits_val_def)
  next
    case False
    with "1.IH" have "digits_val (str_nat (n div 10)) = int (n div 10)" by simp
    moreover have "10 * int (n div 10) + int (n mod 10) = int n"
      by (simp add: zdiv_int zmod_int)
    ultimately show ?thesis
      using False by (subst str_nat.simps) (simp add: digits_val_snoc digit_char_props)
  qed
qed

lemma hd_str_nat: "hd (str_nat n) \<noteq> CHR ''-'' \<and> hd (str_nat n) \<noteq> CHR ''+''"
proof -
  have "is_digit (hd (str_nat n))"
    using str_nat_digits [of n] str_nat_nonempty [of n]
    by (cases "str_nat n") simp_all
  then show ?thesis by (simp add: is_digit_plain)
qed

lemma py_int_str_int: "py_int (str_int i) = Inr i"
proof (cases "i < 0")
  case True
  then show ?thesis
    by (simp add: py_int_def is_int_literal_def str_int_def str_nat_nonempty str_nat_digits
        digits_val_str_nat)
next
  case False
  then show ?thesis
    using hd_str_nat [of "nat i"]
    by (simp add: py_int_def is_int_literal_def str_int_def str_nat_nonempty str_nat_digits
        digits_val_str_nat)
qed

lemma str_int_chars: "list_all (\<lambda>c. \<not> is_space c \<and> c \<noteq> CHR ''['') (str_int i)"
proof -
  have "list_all (\<lambda>c. \<not> is_space c \<and> c \<noteq> CHR ''['') (str_nat n)" for n
    using str_nat_digits [of n] by (auto simp: list_all_iff is_digit_plain)
  then show ?thesis by (simp add: str_int_def is_space_def)
qed

lemma is_annotation_bracket: "is_annotation s \<Longrightarrow> CHR ''['' \<in> set s"
proof -
  assume a: "is_annotation s"
  then obtain r where "dropWhile is_space s = CHR ''['' # r"
    by (auto simp: is_annotation_def split: list.splits)
  then have "CHR ''['' \<in> set (dropWhile is_space s)" by simp
  then show ?thesis by (meson set_dropWhileD)
qed

lemma strip_annotation_plain: "CHR ''['' \<notin> set s \<Longrightarrow> strip_annotation s = s"
proof (induction s)
  case Nil
  then show ?case by simp
next
  case (Cons c r)
  then have "\<not> is_annotation (c # r)" using is_annotation_bracket by blast
  with Cons show ?case by simp
qed

lemma re_split_word: "list_all (\<lambda>c. \<not> is_space c) a \<Longrightarrow> re_split a = [a]"
  by (induction a) simp_all

lemma re_split_cons:
  assumes "list_all (\<lambda>c. \<not> is_space c) a" and "b = [] \<or> \<not> is_space (hd b)"
  shows "re_split (a @ CHR '' '' # b) = a # re_split b"
  using assms by (induction a) (auto simp: is_space_def)

lemma re_split_tags:
  assumes "list_all (\<lambda>c. \<not> is_space c) a" and "list_all plain_tag tags"
  shows "re_split (a @ concat (map (\<lambda>g. CHR '' '' # g) tags)) = a # tags"
  using assms
proof (induction tags arbitrary: a)
  case Nil
  then show ?case by (simp add: re_split_word)
next
  case (Cons g gs)
  from Cons.prems have g: "g \<noteq> []" "list_all (\<lambda>c. \<not> is_space c) g"
    by (auto simp: plain_tag_def list_all_iff)
  then have h: "\<not> is_space (hd (g @ concat (map (\<lambda>g. CHR '' '' # g) gs)))"
    by (cases g) simp_all
  have "re_split (a @ CHR '' '' # (g @ concat (map (\<lambda>g. CHR '' '' # g) gs)))
          = a # re_split (g @ concat (map (\<lambda>g. CHR '' '' # g) gs))"
    using Cons.prems(1) h by (intro re_split_cons) simp_all
  also have "re_split (g @ concat (map (\<lambda>g. CHR '' '' # g) gs)) = g # gs"
    using g Cons.prems(2) by (intro Cons.IH) simp_all
  finally show ?case by simp
qed

lemma fields_of_log_line:
  assumes "list_all plain_tag tags"
  shows "fields_of (log_line ts tags) = str_int ts # tags"
proof -
  have "CHR ''['' \<notin> set (log_line ts tags)"
    using assms str_int_chars [of ts]
    by (auto simp: log_line_def list_all_iff plain_tag_def is_space_def)
  then have "strip_annotation (log_line ts tags) = log_line ts tags"
    by (rule strip_annotation_plain)
  moreover have "re_split (log_line ts tags) = str_int ts # tags"
    unfolding log_line_def using str_int_chars [of ts] assms
    by (intro re_split_tags) (auto simp: list_all_iff)
  ultimately show ?thesis by (simp add: fields_of_def)
qed

lemma parse_sample_log_line:
  assumes "list_all plain_tag tags"
    and "in_datetime_range (real_of_int (ts + utcoffset cfg))"
  shows "parse_sample cfg (log_line ts tags) =
           Inr (real_of_int (ts + utcoffset cfg),
                if multitag cfg = ''first'' then take 1 (filter (\<lambda>x. x \<notin> set (skiptags cfg)) tags)
                else filter (\<lambda>x. x \<notin> set (skiptags cfg)) tags)"
  using assms
  by (simp add: parse_sample_def fields_of_log_line py_int_str_int fromtimestamp_def
      surviving_tags_def Let_def)

subsection \<open>A newline at the end of a line\<close>

lemma re_split_nonempty: "re_split s \<noteq> []"
  by (induction s) (auto split: list.splits)

lemma re_split_trailing_space:
  assumes "s \<noteq> []" and "\<not> is_space (last s)" and "is_space c"
  shows "re_split (s @ [c]) = re_split s @ [[]]"
  using assms
proof (induction s)
  case Nil
  then show ?case by simp
next
  case (Cons x r)
  show ?case
  proof (cases "r = []")
    case True
    with Cons.prems show ?thesis by simp
  next
    case False
    with Cons.prems have ih: "re_split (r @ [c]) = re_split r @ [[]]"
      by (intro Cons.IH) simp_all
    obtain tok toks where t: "re_split r = tok # toks"
      using re_split_nonempty [of r] by (cases "re_split r") auto
    from False have h: "hd (r @ [c]) = hd r" by (cases r) simp_all
    show ?thesis
      using False by (simp add: ih t h)
  qed
qed

text \<open>
  A line read from a file ends with a newline. Without an annotation nothing strips
  it, and \<open>re.split\<close> then yields one more field, the empty string, after the tags: the
  ping carries an additional empty tag.
\<close>

theorem newline_adds_empty_tag:
  assumes "list_all plain_tag tags"
  shows "fields_of (log_line ts tags @ [CHR 0x0A]) = str_int ts # tags @ [[]]"
proof -
  let ?l = "log_line ts tags"
  have nb: "CHR ''['' \<notin> set (?l @ [CHR 0x0A])"
    using assms str_int_chars [of ts]
    by (auto simp: log_line_def list_all_iff plain_tag_def is_space_def)
  have sp: "re_split ?l = str_int ts # tags"
    unfolding log_line_def using str_int_chars [of ts] assms
    by (intro re_split_tags) (auto simp: list_all_iff)
  have ne: "?l \<noteq> []"
    using str_nat_nonempty by (simp add: log_line_def str_int_def)
  have "\<not> is_space (last ?l)"
  proof (cases "tags = []")
    case True
    have "str_int ts \<noteq> []"
      using str_nat_nonempty by (simp add: str_int_def)
    then have "last (str_int ts) \<in> set (str_int ts)" by (rule last_in_set)
    then have "\<not> is_space (last (str_int ts))"
      using str_int_chars [of ts] by (simp add: list_all_iff)
    with True show ?thesis by (simp add: log_line_def)
  next
    case False
    then obtain gs g where tg: "tags = gs @ [g]" by (metis rev_exhaust)
    with assms have "plain_tag g" by simp
    then have g: "g \<noteq> []" "list_all (\<lambda>c. \<not> is_space c) g"
      by (simp_all add: plain_tag_def list_all_iff)
    from g(1) have "last g \<in> set g" by (rule last_in_set)
    with g(2) have "\<not> is_space (last g)" by (simp add: list_all_iff)
    moreover have "last ?l = last g"
      unfolding log_line_def tg using g(1) by simp
    ultimately show ?thesis by simp
  qed
  then have "re_split (?l @ [CHR 0x0A]) = re_split ?l @ [[]]"
    using ne by (intro re_split_trailing_space) (simp_all add: is_space_def)
  with sp nb show ?thesis
    by (simp add: fields_of_def strip_annotation_plain)
qed

theorem newline_adds_empty_tag_witness:
  "list_all plain_tag [''tagA'']
   \<and> fields_of (log_line 1000000000 [''tagA''] @ [CHR 0x0A]) = str_int 1000000000 # [''tagA''] @ [[]]
   \<and> fields_of (''1000000000 tagA'' @ [CHR 0x0A]) = [''1000000000'', ''tagA'', '''']"
proof -
  have p: "list_all plain_tag [''tagA'']" by (simp add: plain_tag_def is_space_def)
  have "fields_of (''1000000000 tagA'' @ [CHR 0x0A]) = [''1000000000'', ''tagA'', '''']"
    by (simp add: line_eval)
  with newline_adds_empty_tag [OF p, of 1000000000] p show ?thesis by simp
qed

subsection \<open>A line without a timestamp\<close>

text \<open>The failures of the loop are those of \<open>int\<close>, \<open>fromtimestamp\<close> and \<open>timedelta\<close>.\<close>

lemma offset_loop_failure: "offset_loop cfg dt t d k = Inl e \<Longrightarrow> e = OverflowError_date"
  by (induction k arbitrary: e)
    (auto simp: add_hours_def Let_def split: sum.splits if_splits prod.splits)

lemma tag_loop_failure: "tag_loop cfg dt n k ts = Inl e \<Longrightarrow> e = OverflowError_date"
  by (induction ts arbitrary: e)
    (auto simp: Let_def dest: offset_loop_failure split: sum.splits if_splits prod.splits)

lemma line_events_failure: "line_events cfg k line = Inl e \<Longrightarrow> e \<noteq> NotANumber"
  by (auto simp: line_events_def parse_sample_def py_int_def fromtimestamp_def Let_def
      dest: tag_loop_failure split: sum.splits if_splits prod.splits)

lemma parse_lines_failure: "parse_lines cfg k ls = Inl e \<Longrightarrow> e \<noteq> NotANumber"
  by (induction ls arbitrary: e)
    (auto dest: line_events_failure split: sum.splits prod.splits)

lemma offsetlist_failure: "offsetlist cfg noise = Inl e \<Longrightarrow> e = ZeroDivisionError"
  by (auto simp: offsetlist_def arange_def Let_def split: if_splits sum.splits)

lemma parse_lines_append_failure:
  assumes "parse_lines cfg k pre = Inr r" and "line_events cfg k line = Inl e"
  shows "parse_lines cfg k (pre @ line # post) = Inl e"
  using assms by (induction pre arbitrary: r) (auto split: sum.splits prod.splits)

lemma line_events_bad_timestamp:
  assumes "\<not> is_int_literal (hd (fields_of line))"
  shows "line_events cfg k line = Inl (ValueError_literal (hd (fields_of line)))"
  using assms by (simp add: line_events_def parse_sample_def py_int_def)

lemmas events_eval = parse_events_def offsetlist_def weights_def line_events_def add_hours_def

text \<open>
  C8 (as amended). For every input line whose timestamp field (the text before the first
  run of white space, after the annotation is stripped) is empty or not an optionally
  signed decimal number, and whatever the configuration, parsing aborts with the
  \<open>ValueError\<close> of \<open>int()\<close>, whose message quotes that field; the lines before it must
  have been read without an exception. The failure does not depend on the position of the
  line, and no option makes the parser skip the line.
\<close>

theorem malformed_timestamp_raises_ValueError:
  assumes "parse_events cfg noise pre = Inr r \<or> parse_events cfg noise pre = Inl NotANumber"
    and "\<not> is_int_literal (hd (fields_of line))"
  shows "parse_file cfg noise (pre @ line # post) = Inl (ValueError_literal (hd (fields_of line)))"
proof -
  let ?e = "ValueError_literal (hd (fields_of line))"
  have bad: "line_events cfg k line = Inl ?e" for k
    using assms(2) by (rule line_events_bad_timestamp)
  from assms(1) obtain offs where offs: "offsetlist cfg noise = Inr offs"
    by (auto simp: parse_events_def dest: offsetlist_failure split: sum.splits)
  have "parse_events cfg noise (pre @ line # post) = Inl ?e"
  proof (cases "weights (sigma cfg) offs")
    case None
    let ?k = "zip (map (\<lambda>_. 0) offs) offs"
    from assms(1) offs None obtain r' where "parse_lines cfg ?k pre = Inr r'"
      by (auto simp: parse_events_def dest: parse_lines_failure split: sum.splits)
    then have "parse_lines cfg ?k (pre @ line # post) = Inl ?e"
      using bad by (rule parse_lines_append_failure)
    with offs None show ?thesis by (simp add: parse_events_def)
  next
    case (Some ws)
    from assms(1) offs Some have "parse_lines cfg (zip ws offs) pre = Inr r"
      by (auto simp: parse_events_def dest: parse_lines_failure)
    then have "parse_lines cfg (zip ws offs) (pre @ line # post) = Inl ?e"
      using bad by (rule parse_lines_append_failure)
    with offs Some show ?thesis by (simp add: parse_events_def)
  qed
  then show ?thesis by (simp add: parse_file_def)
qed

theorem malformed_timestamp_raises_ValueError_witness:
  "parse_events (default_config\<lparr>smooth := False\<rparr>) (\<lambda>_. 0) [''1 work'']
     = Inr ([(''work'', 1, 3 / 4)], 0)
   \<and> \<not> is_int_literal (hd (fields_of ''abc work''))
   \<and> parse_file (default_config\<lparr>smooth := False\<rparr>) (\<lambda>_. 0) ([''1 work''] @ ''abc work'' # [''2 play''])
       = Inl (ValueError_literal ''abc'')"
proof -
  let ?c = "default_config\<lparr>smooth := False\<rparr>"
  have p: "parse_events ?c (\<lambda>_. 0) [''1 work''] = Inr ([(''work'', 1, 3 / 4)], 0)"
    by (simp add: events_eval line_eval)
  have b: "\<not> is_int_literal (hd (fields_of ''abc work''))"
    by (simp add: line_eval)
  have f: "hd (fields_of ''abc work'') = ''abc''"
    by (simp add: line_eval)
  from malformed_timestamp_raises_ValueError [of ?c "\<lambda>_. 0" "[''1 work'']" _ "''abc work''" "[''2 play'']"]
    p b f show ?thesis by simp
qed

text \<open>
  The claim as stated asks for an error that names the line number: the same failure
  comes from a malformed first line and from a malformed second line; an empty line
  fails in the same way.
\<close>

theorem malformed_timestamp_counterexample:
  "parse_file (default_config\<lparr>smooth := False\<rparr>) (\<lambda>_. 0) [''abc work'']
     = Inl (ValueError_literal ''abc'')
   \<and> parse_file (default_config\<lparr>smooth := False\<rparr>) (\<lambda>_. 0) [''1 work'', ''abc work'']
     = Inl (ValueError_literal ''abc'')
   \<and> parse_file (default_config\<lparr>smooth := False\<rparr>) (\<lambda>_. 0) ['''']
     = Inl (ValueError_literal '''')"
  by (simp add: parse_file_def events_eval line_eval)

subsection \<open>The scenario of three lines\<close>

lemma DataFrame_scenario:
  "DataFrame [(''tagA'', a, 1), (''tagB'', a + 3600, 1), (''tagA'', a + 7200, 1 / 2),
              (''tagB'', a + 7200, 1 / 2)]
   = Inr \<lparr>index = [a, a + 3600, a + 7200], columns = [''tagA'', ''tagB''],
          cells = [[Some 1, None], [None, Some 1], [Some (1 / 2), Some (1 / 2)]]\<rparr>"
  by (simp add: DataFrame_def series_def tag_events_def Let_def less_char_def less_eq_char_def)

lemma scenario_totals:
  "pd_sum (column \<lparr>index = ix, columns = [''tagA'', ''tagB''],
          cells = [[Some 1, None], [None, Some 1], [Some (1 / 2), Some (1 / 2)]]\<rparr> ''tagA'') = Some (3 / 2)"
  "pd_sum (column \<lparr>index = ix, columns = [''tagA'', ''tagB''],
          cells = [[Some 1, None], [None, Some 1], [Some (1 / 2), Some (1 / 2)]]\<rparr> ''tagB'') = Some (3 / 2)"
  by (simp_all add: pd_sum_def column_def positions_def nansum_def upt_rec)

lemma in_datetime_range_between:
  assumes "in_datetime_range a" and "in_datetime_range c" and "a \<le> b" and "b \<le> c"
  shows "in_datetime_range b"
  using assms by (simp add: in_datetime_range_def)

text \<open>
  C2 (as amended). The log of the three lines \<open>t0 tagA\<close>, \<open>t0+3600 tagB\<close>,
  \<open>t0+7200 tagA tagB\<close> (no annotation, no white space at the end of a line), parsed with
  interval 1, multitag \<open>split\<close>, smoothing disabled, sigma other than 0 and nothing
  excluded, gives a table with the columns tagA and tagB whose totals are 1.5 for tagA and
  1.5 for tagB: each tag has one ping of its own (1.0) and half of the shared ping (0.5).
\<close>

theorem three_line_scenario_totals:
  assumes "sg \<noteq> 0"
    and "in_datetime_range (real_of_int (t0 + tz))"
    and "in_datetime_range (real_of_int (t0 + 7200 + tz))"
  shows "\<exists>D. parse_file
            (default_config\<lparr>interval := 1, multitag := ''split'', smooth := False, sigma := sg,
               utcoffset := tz\<rparr>) noise
            [log_line t0 [''tagA''], log_line (t0 + 3600) [''tagB''],
             log_line (t0 + 7200) [''tagA'', ''tagB'']] = Inr (D, 0)
          \<and> columns D = [''tagA'', ''tagB'']
          \<and> pd_sum (column D ''tagA'') = Some (3 / 2)
          \<and> pd_sum (column D ''tagB'') = Some (3 / 2)"
proof -
  let ?c = "default_config\<lparr>interval := 1, multitag := ''split'', smooth := False, sigma := sg,
               utcoffset := tz\<rparr>"
  let ?a = "real_of_int (t0 + tz)"
  have c: "\<not> smooth ?c" "sigma ?c \<noteq> 0" "skipweekdays ?c = []" "skiptags ?c = []"
    "multitag ?c = ''split''" "interval ?c = 1" "utcoffset ?c = tz"
    using assms(1) by (simp_all add: default_config_def)
  have k: "kernel_of ?c noise = Inr [(1, 0)]"
    using c(1,2) by (rule kernel_of_no_smooth)
  have pl: "plain_tag ''tagA''" "plain_tag ''tagB''"
    by (simp_all add: plain_tag_def is_space_def)
  have r1: "in_datetime_range (real_of_int (t0 + 3600 + tz))"
    using assms(2,3) by (rule in_datetime_range_between) simp_all
  have e1: "line_events ?c [(1, 0)] (log_line t0 [''tagA'']) = Inr ([(''tagA'', ?a, 1)], 0)"
    using assms(2) pl c
    by (simp add: line_events_def parse_sample_log_line tag_loop_single)
  have e2: "line_events ?c [(1, 0)] (log_line (t0 + 3600) [''tagB''])
              = Inr ([(''tagB'', ?a + 3600, 1)], 0)"
    using r1 pl c
    by (simp add: line_events_def parse_sample_log_line tag_loop_single add.commute add.left_commute)
  have e3: "line_events ?c [(1, 0)] (log_line (t0 + 7200) [''tagA'', ''tagB''])
              = Inr ([(''tagA'', ?a + 7200, 1 / 2), (''tagB'', ?a + 7200, 1 / 2)], 0)"
    using assms(3) pl c
    by (simp add: line_events_def parse_sample_log_line tag_loop_single add.commute add.left_commute)
  have "parse_events ?c noise [log_line t0 [''tagA''], log_line (t0 + 3600) [''tagB''],
             log_line (t0 + 7200) [''tagA'', ''tagB'']]
        = Inr ([(''tagA'', ?a, 1), (''tagB'', ?a + 3600, 1), (''tagA'', ?a + 7200, 1 / 2),
                (''tagB'', ?a + 7200, 1 / 2)], 0)"
    using k e1 e2 e3
    by (auto simp: parse_events_def kernel_of_def split: sum.splits option.splits)
  then have "parse_file ?c noise [log_line t0 [''tagA''], log_line (t0 + 3600) [''tagB''],
             log_line (t0 + 7200) [''tagA'', ''tagB'']]
        = Inr (\<lparr>index = [?a, ?a + 3600, ?a + 7200], columns = [''tagA'', ''tagB''],
          cells = [[Some 1, None], [None, Some 1], [Some (1 / 2), Some (1 / 2)]]\<rparr>, 0)"
    by (simp add: parse_file_def DataFrame_scenario)
  then show ?thesis
    using scenario_totals by (intro exI conjI) (assumption, simp_all)
qed

theorem three_line_scenario_totals_witness:
  "in_datetime_range (real_of_int (1000000000 + 0))
   \<and> in_datetime_range (real_of_int (1000000000 + 7200 + 0))
   \<and> (\<exists>D. parse_file
            (default_config\<lparr>interval := 1, multitag := ''split'', smooth := False, sigma := 1,
               utcoffset := 0\<rparr>) (\<lambda>_. 0)
            [log_line 1000000000 [''tagA''], log_line (1000000000 + 3600) [''tagB''],
             log_line (1000000000 + 7200) [''tagA'', ''tagB'']] = Inr (D, 0)
          \<and> columns D = [''tagA'', ''tagB'']
          \<and> pd_sum (column D ''tagA'') = Some (3 / 2)
          \<and> pd_sum (column D ''tagB'') = Some (3 / 2))"
proof -
  have r: "in_datetime_range (real_of_int (1000000000 + 0))"
    "in_datetime_range (real_of_int (1000000000 + 7200 + 0))"
    by (simp_all add: in_datetime_range_def datetime_min_def datetime_max_def)
  from three_line_scenario_totals [of 1 1000000000 0 "\<lambda>_. 0", OF _ r] r
  show ?thesis by simp
qed

text \<open>The claim as stated gives tagB the total 1.0; for \<open>t0 = 1000000000\<close> it is 1.5.\<close>

theorem three_line_scenario_counterexample:
  "parse_file
     (default_config\<lparr>interval := 1, multitag := ''split'', smooth := False\<rparr>) (\<lambda>_. 0)
     [''1000000000 tagA'', ''1000003600 tagB'', ''1000007200 tagA tagB'']
   = Inr (\<lparr>index = [1000000000, 1000003600, 1000007200], columns = [''tagA'', ''tagB''],
           cells = [[Some 1, None], [None, Some 1], [Some (1 / 2), Some (1 / 2)]]\<rparr>, 0)
   \<and> pd_sum (column \<lparr>index = [1000000000, 1000003600, 1000007200], columns = [''tagA'', ''tagB''],
           cells = [[Some 1, None], [None, Some 1], [Some (1 / 2), Some (1 / 2)]]\<rparr> ''tagB'')
       \<noteq> Some 1"
proof -
  have "parse_events (default_config\<lparr>interval := 1, multitag := ''split'', smooth := False\<rparr>) (\<lambda>_. 0)
     [''1000000000 tagA'', ''1000003600 tagB'', ''1000007200 tagA tagB'']
    = Inr ([(''tagA'', 1000000000, 1), (''tagB'', 1000003600, 1),
            (''tagA'', 1000007200, 1 / 2), (''tagB'', 1000007200, 1 / 2)], 0)"
    by (simp add: events_eval line_eval)
  moreover have "DataFrame [(''tagA'', 1000000000, 1), (''tagB'', 1000003600, 1),
            (''tagA'', 1000007200, 1 / 2), (''tagB'', 1000007200, 1 / 2)]
    = Inr \<lparr>index = [1000000000, 1000003600, 1000007200], columns = [''tagA'', ''tagB''],
           cells = [[Some 1, None], [None, Some 1], [Some (1 / 2), Some (1 / 2)]]\<rparr>"
    using DataFrame_scenario [of 1000000000] by simp
  ultimately show ?thesis
    by (simp add: parse_file_def scenario_totals)
qed

subsection \<open>The smoothing kernel\<close>

lemma sum_list_normalised:
  assumes "sum_list (w :: real list) \<noteq> 0"
  shows "sum_list (map (\<lambda>x. x / sum_list w) w) = 1"
proof -
  have "sum_list (map (\<lambda>x. x / c) w) = sum_list w / c" for c :: real
    by (induction w) (simp_all add: add_divide_distrib)
  with assms show ?thesis by simp
qed

lemma sum_list_np_exp_nonneg: "0 \<le> sum_list (map (\<lambda>x. np_exp (f x)) xs)"
  by (induction xs) (simp_all add: np_exp_nonneg)

lemma weights_Some:
  assumes "weights sg offs = Some ws" and "offs \<noteq> []"
  shows "length ws = length offs \<and> sum_list ws = 1 \<and> (\<forall>w \<in> set ws. 0 \<le> w)
           \<and> (\<exists>w \<in> set ws. 0 < w)"
proof -
  let ?w = "map (\<lambda>offset. np_exp (- (offset ^ 2) / sg ^ 2)) offs"
  from assms have nz: "sum_list ?w \<noteq> 0" and ws: "ws = map (\<lambda>x. x / sum_list ?w) ?w"
    by (auto simp: weights_def Let_def split: if_splits)
  have "0 \<le> sum_list ?w" by (rule sum_list_np_exp_nonneg)
  with nz have pos: "0 < sum_list ?w" by simp
  have one: "sum_list ws = 1" unfolding ws using nz by (rule sum_list_normalised)
  have nonneg: "\<forall>w \<in> set ws. 0 \<le> w"
    unfolding ws using pos by (auto simp: np_exp_nonneg)
  have "\<exists>w \<in> set ws. 0 < w"
  proof (rule ccontr)
    assume "\<not> (\<exists>w \<in> set ws. 0 < w)"
    with nonneg have "\<forall>w \<in> set ws. w = 0" by fastforce
    then have "sum_list ws = 0" by (induction ws) simp_all
    with one show False by simp
  qed
  with one nonneg show ?thesis by (simp add: ws)
qed

lemma weights_sum:
  assumes "sg \<noteq> 0" and "off \<in> set offs" and "- 1075 * ln 2 < - (off ^ 2) / sg ^ 2"
  shows "\<exists>ws. weights sg offs = Some ws \<and> length ws = length offs \<and> sum_list ws = 1"
proof -
  let ?w = "map (\<lambda>offset. np_exp (- (offset ^ 2) / sg ^ 2)) offs"
  have "sum_list ?w \<noteq> 0"
  proof
    assume z: "sum_list ?w = 0"
    have "\<forall>x \<in> set ?w. x = 0"
      using z by (subst (asm) sum_list_nonneg_eq_0_iff) (auto simp: np_exp_nonneg)
    with assms(2) have "np_exp (- (off ^ 2) / sg ^ 2) = 0" by simp
    with np_exp_pos [OF assms(3)] show False by simp
  qed
  moreover from assms(2) have "offs \<noteq> []" by auto
  ultimately obtain ws where ws: "weights sg offs = Some ws"
    using assms(1) by (simp add: weights_def Let_def)
  from weights_Some [OF ws \<open>offs \<noteq> []\<close>] ws show ?thesis by simp
qed

lemma grid_length_pos:
  assumes "0 < (sg::real)"
  shows "0 < nat \<lceil>(2 * sg - (- 2 * sg)) / ((4 * sg + 1) / 15)\<rceil>"
proof -
  have "0 < (2 * sg - (- 2 * sg)) / ((4 * sg + 1) / 15)" using assms by simp
  then show ?thesis by simp
qed

lemma offsetlist_smooth:
  assumes "smooth cfg" and "0 < sigma cfg"
  shows "offsetlist cfg noise =
           Inr (map (\<lambda>i. - 2 * sigma cfg + real i * ((4 * sigma cfg + 1) / 15) + noise i)
                  [0..<nat \<lceil>(2 * sigma cfg - (- 2 * sigma cfg)) / ((4 * sigma cfg + 1) / 15)\<rceil>])"
proof -
  have nz: "(4 * sigma cfg + 1) / 15 \<noteq> 0" using assms(2) by simp
  show ?thesis
    using assms(1) nz
    by (simp add: offsetlist_def arange_def Let_def del: upt_Suc) (rule nth_equalityI; simp)
qed

lemma offsetlist_nonempty:
  assumes "0 < sigma cfg"
  shows "\<exists>offs. offsetlist cfg noise = Inr offs \<and> offs \<noteq> []"
proof (cases "smooth cfg")
  case True
  have "0 < nat \<lceil>(2 * sigma cfg - (- 2 * sigma cfg)) / ((4 * sigma cfg + 1) / 15)\<rceil>"
    using assms by (rule grid_length_pos)
  then show ?thesis
    unfolding offsetlist_smooth [OF True assms] by simp
next
  case False
  then show ?thesis by (simp add: offsetlist_def)
qed

lemma ln2_bounds: "1 / 2 \<le> ln (2::real)" "ln (2::real) \<le> 1"
proof -
  have "norm (exp (1 / 2 :: real)) \<le> 2" by (rule exp_bound_half) simp
  then have "exp (1 / 2 :: real) \<le> 2" by simp
  moreover have "1 / 2 \<le> ln (2::real) \<longleftrightarrow> exp (1 / 2 :: real) \<le> 2"
    by (rule ln_ge_iff) simp
  ultimately show "1 / 2 \<le> ln (2::real)" by blast
  show "ln (2::real) \<le> 1" using ln_le_minus_one [of "2::real"] by simp
qed

text \<open>
  Where the weights do sum to 1: without smoothing for every sigma other than 0 (the one
  offset is 0, its weight 1), and with smoothing for every sigma from 0.005 on, whatever
  the random draws in \<open>[-0.1, 0.1]\<close> (the first offset, \<open>-2\<sigma>\<close> plus its draw, is then at
  most 22 sigma away from 0, and \<open>exp(-484)\<close> is a positive double).
\<close>

lemma weights_sum_to_one_from_sigma:
  assumes "if smooth cfg then 1 / 200 \<le> sigma cfg \<and> \<bar>noise 0\<bar> \<le> 1 / 10 else sigma cfg \<noteq> 0"
  shows "\<exists>offs ws. offsetlist cfg noise = Inr offs \<and> offs \<noteq> []
           \<and> weights (sigma cfg) offs = Some ws \<and> length ws = length offs
           \<and> sum_list ws = 1"
proof (cases "smooth cfg")
  case False
  with assms have "sigma cfg \<noteq> 0" by simp
  with False show ?thesis by (simp add: offsetlist_def weights_def)
next
  case True
  let ?sg = "sigma cfg"
  from True assms have sg: "1 / 200 \<le> ?sg" and nz: "\<bar>noise 0\<bar> \<le> 1 / 10" by simp_all
  then have pos: "0 < ?sg" by simp
  let ?n = "nat \<lceil>(2 * ?sg - (- 2 * ?sg)) / ((4 * ?sg + 1) / 15)\<rceil>"
  let ?offs = "map (\<lambda>i. - 2 * ?sg + real i * ((4 * ?sg + 1) / 15) + noise i) [0..<?n]"
  have o: "offsetlist cfg noise = Inr ?offs" using True pos by (rule offsetlist_smooth)
  have n: "0 < ?n" using pos by (rule grid_length_pos)
  let ?off = "- 2 * ?sg + noise 0"
  have "?offs ! 0 = ?off" using n by simp
  moreover have "?offs ! 0 \<in> set ?offs" using n by (intro nth_mem) simp
  ultimately have mem: "?off \<in> set ?offs" by simp
  from nz have "noise 0 \<le> 1 / 10" "- noise 0 \<le> 1 / 10" by (simp_all add: abs_le_iff)
  with pos have "?off \<le> 2 * ?sg + 1 / 10" "- ?off \<le> 2 * ?sg + 1 / 10" by linarith+
  then have "\<bar>?off\<bar> \<le> 2 * ?sg + 1 / 10" by (simp only: abs_le_iff)
  also have "\<dots> \<le> 22 * ?sg" using sg by simp
  finally have "\<bar>?off\<bar> \<le> 22 * ?sg" .
  then have "\<bar>?off\<bar> ^ 2 \<le> (22 * ?sg) ^ 2" by (intro power_mono) simp_all
  then have "?off ^ 2 \<le> 484 * ?sg ^ 2" by (simp add: power_mult_distrib)
  then have "?off ^ 2 / ?sg ^ 2 \<le> 484" using pos by (simp add: pos_divide_le_eq)
  moreover have "484 < 1075 * ln (2::real)" using ln2_bounds(1) by simp
  ultimately have "- 1075 * ln 2 < - (?off ^ 2) / ?sg ^ 2" by simp
  with weights_sum [of ?sg ?off ?offs] pos mem obtain ws where
    "weights ?sg ?offs = Some ws" "length ws = length ?offs" "sum_list ws = 1"
    by auto
  moreover have "?offs \<noteq> []" using mem by auto
  ultimately show ?thesis using o by blast
qed

text \<open>
  C3 (a defect of the code). The claim: for every sigma above 0, with smoothing enabled
  or disabled, the weights sum to 1. The script divides the exponentials by their sum
  without looking at the sum, and for a small sigma every exponential is \<open>0.0\<close>. With
  smoothing enabled and \<open>sigma = 0.001\<close> the grid of offsets is the single point
  \<open>-0.002\<close>; with the random draw \<open>0.05\<close> the offset is \<open>0.048\<close>, the exponent is
  \<open>-(0.048 ^ 2) / 0.001 ^ 2 = -2304\<close>, and \<open>np.exp\<close> returns \<open>0.0\<close>. The sum is \<open>0.0\<close>,
  the division \<open>0.0 / 0.0\<close> makes the one weight NaN, and so is every duration of the
  parse:
\<close>

theorem smoothing_weights_underflow:
  "offsetlist (default_config\<lparr>sigma := 1 / 1000\<rparr>) (\<lambda>_. 1 / 20) = Inr [6 / 125]
   \<and> np_exp (- ((6 / 125) ^ 2) / (1 / 1000) ^ 2) = 0
   \<and> weights (1 / 1000) [6 / 125] = None
   \<and> kernel_of (default_config\<lparr>sigma := 1 / 1000\<rparr>) (\<lambda>_. 1 / 20) = Inl NotANumber"
proof -
  have o: "offsetlist (default_config\<lparr>sigma := 1 / 1000\<rparr>) (\<lambda>_. 1 / 20) = Inr [6 / 125]"
    by (simp add: offsetlist_def arange_def default_config_def Let_def)
  have "1075 * ln (2::real) \<le> 2304" using ln2_bounds(2) by simp
  then have e: "np_exp (- ((6 / 125) ^ 2) / (1 / 1000) ^ 2) = 0"
    by (simp add: np_exp_def power2_eq_square)
  then have w: "weights (1 / 1000) [6 / 125] = None"
    by (simp add: weights_def)
  have "sigma (default_config\<lparr>sigma := 1 / 1000\<rparr>) = 1 / 1000" by simp
  with o w have "kernel_of (default_config\<lparr>sigma := 1 / 1000\<rparr>) (\<lambda>_. 1 / 20) = Inl NotANumber"
    by (simp add: kernel_of_def)
  with o e w show ?thesis by simp
qed

lemma less_ceiling_nat:
  assumes "i < nat \<lceil>x::real\<rceil>"
  shows "real i < x"
proof -
  from assms have "int i < \<lceil>x\<rceil>" by linarith
  then show ?thesis by (simp add: less_ceiling_iff)
qed

text \<open>
  C9 (as amended). For every sigma above 0, when smoothing is enabled the offsets are the
  grid points \<open>-2\<sigma> + i (4\<sigma> + 1) / 15\<close>, \<open>i = 0, 1, ...\<close>, below \<open>2\<sigma>\<close>, of which there
  are \<open>\<lceil>60\<sigma> / (4\<sigma> + 1)\<rceil>\<close>, each moved by its random draw from \<open>[-0.1, 0.1)\<close>; so the
  list is not empty and every offset lies in \<open>[-2\<sigma> - 0.1, 2\<sigma> + 0.1)\<close>.
\<close>

theorem smoothing_offsets_span:
  assumes "smooth cfg" and "0 < sigma cfg"
    and "\<forall>i. - (1 / 10) \<le> noise i \<and> noise i < 1 / 10"
  shows "\<exists>offs. offsetlist cfg noise = Inr offs \<and> offs \<noteq> []
           \<and> length offs = nat \<lceil>60 * sigma cfg / (4 * sigma cfg + 1)\<rceil>
           \<and> (\<forall>i < length offs.
                 offs ! i = - 2 * sigma cfg + real i * ((4 * sigma cfg + 1) / 15) + noise i
                 \<and> - 2 * sigma cfg - 1 / 10 \<le> offs ! i
                 \<and> offs ! i < 2 * sigma cfg + 1 / 10)"
proof -
  let ?s = "sigma cfg"
  let ?step = "(4 * ?s + 1) / 15"
  let ?n = "nat \<lceil>(2 * ?s - (- 2 * ?s)) / ?step\<rceil>"
  let ?offs = "map (\<lambda>i. - 2 * ?s + real i * ?step + noise i) [0..<?n]"
  have step: "0 < ?step" using assms(2) by simp
  have o: "offsetlist cfg noise = Inr ?offs"
    using assms(1,2) by (rule offsetlist_smooth)
  have ne: "?offs \<noteq> []"
    using grid_length_pos [OF assms(2)] by simp
  have len: "length ?offs = nat \<lceil>60 * ?s / (4 * ?s + 1)\<rceil>"
  proof -
    have "(2 * ?s - (- 2 * ?s)) / ?step = 60 * ?s / (4 * ?s + 1)" by simp
    then show ?thesis by simp
  qed
  have b: "?offs ! i = - 2 * ?s + real i * ?step + noise i
           \<and> - 2 * ?s - 1 / 10 \<le> ?offs ! i \<and> ?offs ! i < 2 * ?s + 1 / 10"
    if "i < length ?offs" for i
  proof -
    from that have i: "i < ?n" by simp
    then have "real i < (2 * ?s - (- 2 * ?s)) / ?step" by (rule less_ceiling_nat)
    then have "real i * ?step < 2 * ?s - (- 2 * ?s)"
      using step by (simp only: pos_less_divide_eq)
    moreover have "0 \<le> real i * ?step" using step by simp
    moreover have "- (1 / 10) \<le> noise i" "noise i < 1 / 10" using assms(3) by simp_all
    moreover have "?offs ! i = - 2 * ?s + real i * ?step + noise i" using i by simp
    ultimately show ?thesis by linarith
  qed
  show ?thesis
    using o ne len b by (intro exI [of _ ?offs] conjI allI impI) blast+
qed

theorem smoothing_offsets_span_witness:
  "smooth default_config \<and> 0 < sigma default_config
   \<and> (\<exists>offs. offsetlist default_config (\<lambda>_. 0) = Inr offs \<and> offs \<noteq> []
           \<and> length offs = nat \<lceil>60 * sigma default_config / (4 * sigma default_config + 1)\<rceil>
           \<and> (\<forall>i < length offs.
                 offs ! i = - 2 * sigma default_config
                    + real i * ((4 * sigma default_config + 1) / 15) + (\<lambda>_. 0) i
                 \<and> - 2 * sigma default_config - 1 / 10 \<le> offs ! i
                 \<and> offs ! i < 2 * sigma default_config + 1 / 10))"
proof -
  have h: "smooth default_config" "0 < sigma default_config"
    "\<forall>i::nat. - (1 / 10) \<le> (\<lambda>_. 0::real) i \<and> (\<lambda>_. 0::real) i < 1 / 10"
    by (simp_all add: default_config_def)
  from smoothing_offsets_span [of default_config "\<lambda>_. 0", OF h] h(1,2)
  show ?thesis by blast
qed

text \<open>
  The claim as stated has the list symmetric about zero. With the default sigma 1 and
  draws that are all 0 the list starts at \<open>-2\<close> and ends at \<open>5/3\<close>: it holds \<open>-2\<close>
  and not \<open>2\<close>.
\<close>

theorem smoothing_offsets_counterexample:
  "offsetlist default_config (\<lambda>_. 0)
     = Inr [- 2, - (5 / 3), - (4 / 3), - 1, - (2 / 3), - (1 / 3), 0, 1 / 3, 2 / 3, 1, 4 / 3, 5 / 3]
   \<and> (- 2 :: real) \<in> set [- 2, - (5 / 3), - (4 / 3), - 1, - (2 / 3), - (1 / 3), 0, 1 / 3, 2 / 3, 1,
                           4 / 3, 5 / 3]
   \<and> (- (- 2) :: real) \<notin> set [- 2, - (5 / 3), - (4 / 3), - 1, - (2 / 3), - (1 / 3), 0, 1 / 3, 2 / 3,
                               1, 4 / 3, 5 / 3]"
proof -
  have "nat \<lceil>(2 * 1 - (- 2 * 1)) / ((4 * 1 + 1) / 15 :: real)\<rceil> = 12" by simp
  then have "offsetlist default_config (\<lambda>_. 0)
     = Inr (map (\<lambda>i. - 2 * 1 + real i * ((4 * 1 + 1) / 15) + 0) [0..<12])"
    using offsetlist_smooth [of default_config "\<lambda>_. 0"] by (simp add: default_config_def)
  then show ?thesis by (simp add: upt_rec)
qed

subsection \<open>Trimming the table\<close>

lemma list_min_le: "x \<in> set xs \<Longrightarrow> list_min xs \<le> x"
proof -
  assume x: "x \<in> set xs"
  then obtain y ys where xs: "xs = y # ys" by (cases xs) auto
  have "list_min xs = Min (set xs)"
    unfolding xs list_min_def using Min.set_eq_fold [of y ys] by simp
  with x show ?thesis by simp
qed

lemma list_max_ge: "x \<in> set xs \<Longrightarrow> x \<le> list_max xs"
proof -
  assume x: "x \<in> set xs"
  then obtain y ys where xs: "xs = y # ys" by (cases xs) auto
  have "list_max xs = Max (set xs)"
    unfolding xs list_max_def using Max.set_eq_fold [of y ys] by simp
  with x show ?thesis by simp
qed






subsection \<open>Ranking the tags\<close>







text \<open>Unfolding the operations on a concrete table.\<close>

lemmas frame_eval = resample_sum_def list_min_def list_max_def day_of_def rows_of_day_def
  pd_sum_def nansum_def column_sums_def day_totals_def day_total_def positions_def ranked_def


subsection \<open>The views and the source table\<close>

lemmas view_eval = pie_def resolve_top_n_def view_select_def inject_other_def update_local_def
  obfuscate_frame_def deref_def column_means_def pd_mean_def fillna0_def

text \<open>
  C7 (a defect of the code). The claim: no view call changes the column labels or the
  values of \<open>self.D\<close>. In \<open>pie\<close> the variable \<open>D\<close> is \<open>self.D\<close> itself when neither
  tags nor \<open>top_n\<close> are given, and \<open>_obfuscate(D)\<close> is called before \<open>D\<close> is resampled
  into a new table, so with obfuscation on the columns of \<open>self.D\<close> are renamed for good.
  The other views obfuscate the table they have derived. Evaluated on a table with the
  columns \<open>a\<close> and \<open>b\<close>:
\<close>

theorem pie_obfuscate_renames_source_table:
  "pie (default_config\<lparr>obfuscate := True\<rparr>) (\<lambda>i. if i = 0 then ''AAAA'' else ''BBBB'')
       \<lparr>index = [0, 3600], columns = [''a'', ''b''],
        cells = [[Some (3 / 4), None], [None, Some (3 / 4)]]\<rparr> None None False
     = Inr (\<lparr>index = [0, 3600], columns = [''AAAA'', ''BBBB''],
             cells = [[Some (3 / 4), None], [None, Some (3 / 4)]]\<rparr>,
            [(''AAAA'', 3 / 4), (''BBBB'', 3 / 4)])
   \<and> columns \<lparr>index = [0, 3600], columns = [''AAAA'', ''BBBB''],
             cells = [[Some (3 / 4), None], [None, Some (3 / 4)]]\<rparr>
       \<noteq> columns \<lparr>index = [0, 3600], columns = [''a'', ''b''],
             cells = [[Some (3 / 4), None], [None, Some (3 / 4)]]\<rparr>"
  by (simp add: view_eval frame_eval default_config_def upto.simps upt_rec del: not_None_eq)

lemma update_local_Fresh: "update_local selfD (Fresh d) f = (selfD, Fresh (f d))"
  by (simp add: update_local_def)

lemma inject_other_Fresh:
  "inject_other selfD (Fresh d) tags other = Inr (selfD1, D1) \<Longrightarrow> selfD1 = selfD \<and> (\<exists>d1. D1 = Fresh d1)"
  by (auto simp: inject_other_def update_local_def split: if_splits sum.splits)

text \<open>
  Apart from that path \<open>pie\<close> keeps the source table: when tags or \<open>top_n\<close> are
  given, \<open>self.D\<close> is the same after the call.
\<close>

theorem pie_keeps_source_unless_aliased:
  assumes "pie cfg rnd selfD tags top_n other = Inr (selfD', wedges)"
    and "tags \<noteq> None \<or> top_n \<noteq> None"
  shows "selfD' = selfD"
proof -
  from assms obtain ts where r: "resolve_top_n selfD tags top_n = Inr (Some ts)"
    by (auto simp: pie_def resolve_top_n_def split: sum.splits option.splits)
  with assms(1) show ?thesis
    by (auto simp: pie_def view_select_def update_local_def Let_def
        dest!: inject_other_Fresh split: sum.splits prod.splits)
qed

theorem pie_keeps_source_unless_aliased_witness:
  "pie (default_config\<lparr>obfuscate := True\<rparr>) (\<lambda>_. ''XXXX'')
       \<lparr>index = [0, 3600], columns = [''a'', ''b''],
        cells = [[Some (3 / 4), None], [None, Some (3 / 4)]]\<rparr> (Some [''a'']) None False
     = Inr (\<lparr>index = [0, 3600], columns = [''a'', ''b''],
             cells = [[Some (3 / 4), None], [None, Some (3 / 4)]]\<rparr>, [(''XXXX'', 3 / 4)])
   \<and> (Some [''a''] \<noteq> None \<or> (None :: int option) \<noteq> None)"
proof -
  let ?D = "\<lparr>index = [0, 3600], columns = [''a'', ''b''],
        cells = [[Some (3 / 4), None], [None, Some (3 / 4)]]\<rparr>"
  have "\<exists>D'. pie (default_config\<lparr>obfuscate := True\<rparr>) (\<lambda>_. ''XXXX'') ?D (Some [''a'']) None False
          = Inr (D', [(''XXXX'', 3 / 4)])"
    by (simp add: view_eval frame_eval select_def default_config_def upto.simps upt_rec
        del: not_None_eq)
  then obtain D' where p: "pie (default_config\<lparr>obfuscate := True\<rparr>) (\<lambda>_. ''XXXX'') ?D
      (Some [''a'']) None False = Inr (D', [(''XXXX'', 3 / 4)])" by blast
  from pie_keeps_source_unless_aliased [OF p] p show ?thesis by simp
qed

text \<open>
  \<open>day_of_the_week_sums\<close> without tags and without \<open>top_n\<close> calls
  \<open>self.top_n_tags(1000)\<close>, which lacks the second argument: \<open>TypeError\<close>, whatever the
  table.
\<close>

theorem day_of_the_week_sums_without_tags_raises:
  "day_of_the_week_sums cfg rnd selfD None None other = Inl TypeError"
  by (simp add: day_of_the_week_sums_def resolve_top_n_def)

text \<open>
  \<open>day_of_the_week_sums\<close> always works on a table of its own: \<open>self.D\<close> is the
  same after every call that returns.
\<close>

theorem day_of_the_week_sums_keeps_source:
  assumes "day_of_the_week_sums cfg rnd selfD tags top_n other = Inr (selfD', result)"
  shows "selfD' = selfD"
  using assms
  by (auto simp: day_of_the_week_sums_def view_select_def Let_def
      dest!: inject_other_Fresh split: sum.splits option.splits prod.splits)

subsection \<open>The day-of-the-week view of a table with one column\<close>

lemma positions_single: "positions [g] g = [0]"
  by (simp add: positions_def)

lemma select_one_column: "select (one_column g s) [g] = Inr (one_column g s)"
  by (simp add: select_def one_column_def positions_single)

lemma rows_of_day_one_column:
  "rows_of_day (one_column g s) d = map (\<lambda>p. [Some (snd p)]) (filter (\<lambda>p. day_of (fst p) = d) s)"
  by (induction s) (simp_all add: rows_of_day_def one_column_def)

lemma pd_sum_Some:
  "pd_sum (map (\<lambda>p. Some (f p)) xs) = (if xs = [] then None else Some (sum_list (map f xs)))"
proof -
  have "nansum (map (\<lambda>p. Some (f p)) xs) = sum_list (map f xs)"
    by (induction xs) (simp_all add: nansum_def)
  moreover have "list_all (\<lambda>x. x = None) (map (\<lambda>p. Some (f p)) xs) \<longleftrightarrow> xs = []"
    by (cases xs) simp_all
  ultimately show ?thesis by (simp add: pd_sum_def)
qed

lemma pd_sum_single: "pd_sum [x] = x"
  by (cases x) (simp_all add: pd_sum_def nansum_def)

lemma resample_one_column:
  assumes "s \<noteq> []"
  shows "fillna0 (resample_sum (one_column g s)) =
           \<lparr>index = map (\<lambda>d. real_of_int d * 86400)
                      [day_of (list_min (map fst s)) .. day_of (list_max (map fst s))],
            columns = [g],
            cells = map (\<lambda>d. [Some (sum_list (map snd (filter (\<lambda>p. day_of (fst p) = d) s)))])
                      [day_of (list_min (map fst s)) .. day_of (list_max (map fst s))]\<rparr>"
proof -
  have c: "pd_sum (map (\<lambda>row. row ! 0) (rows_of_day (one_column g s) d))
             = (if filter (\<lambda>p. day_of (fst p) = d) s = [] then None
                else Some (sum_list (map snd (filter (\<lambda>p. day_of (fst p) = d) s))))" for d
    by (simp add: rows_of_day_one_column comp_def pd_sum_Some)
  have i: "index (one_column g s) = map fst s" "columns (one_column g s) = [g]"
    by (simp_all add: one_column_def)
  show ?thesis
    using assms by (simp add: resample_sum_def fillna0_def Let_def i c)
qed

lemma div_by_row_sums_single:
  "div_by_row_sums \<lparr>index = ix, columns = cs, cells = map (\<lambda>d. [Some (S d)]) ds\<rparr> =
     \<lparr>index = ix, columns = cs, cells = map (\<lambda>d. [if S d = 0 then None else Some 1]) ds\<rparr>"
  by (simp add: div_by_row_sums_def pd_sum_single pd_div_def)

lemma weekday_day_start: "weekday (real_of_int d * 86400) = (d + 3) mod 7"
  by (simp add: weekday_def day_of_def)

lemma rows_of_weekday_days:
  "rows_of_weekday \<lparr>index = map (\<lambda>d. real_of_int d * 86400) ds, columns = cs,
                     cells = map (\<lambda>d. [c d]) ds\<rparr> w
     = map (\<lambda>d. [c d]) (filter (\<lambda>d. (d + 3) mod 7 = w) ds)"
  by (induction ds) (simp_all add: rows_of_weekday_def weekday_day_start)

lemma pd_mean_ones:
  "pd_mean (map (\<lambda>d. if P d then Some 1 else None) ds)
     = (if \<exists>d \<in> set ds. P d then Some 1 else None)"
proof -
  let ?c = "\<lambda>d. if P d then Some (1::real) else None"
  have n: "nansum (map ?c ds) = real (length (filter P ds))"
    by (induction ds) (simp_all add: nansum_def)
  have l: "length (filter (\<lambda>x. x \<noteq> None) (map ?c ds)) = length (filter P ds)"
    by (induction ds) simp_all
  have a: "list_all (\<lambda>x. x = None) (map ?c ds) \<longleftrightarrow> \<not> (\<exists>d \<in> set ds. P d)"
    by (induction ds) simp_all
  show ?thesis
  proof (cases "\<exists>d \<in> set ds. P d")
    case True
    then have "filter P ds \<noteq> []" by (simp add: filter_empty_conv)
    then have "real (length (filter P ds)) \<noteq> 0" by simp
    with True show ?thesis unfolding pd_mean_def n l a by simp
  next
    case False
    then show ?thesis unfolding pd_mean_def a by simp
  qed
qed

lemma groupby_weekday_mean_days:
  "groupby_weekday_mean \<lparr>index = map (\<lambda>d. real_of_int d * 86400) ds, columns = [g],
       cells = map (\<lambda>d. [if P d then Some 1 else None]) ds\<rparr>
   = \<lparr>index = map real_of_int (sort (remdups (map (\<lambda>d. (d + 3) mod 7) ds))), columns = [g],
      cells = map (\<lambda>w. [if \<exists>d \<in> set ds. (d + 3) mod 7 = w \<and> P d then Some 1 else None])
                (sort (remdups (map (\<lambda>d. (d + 3) mod 7) ds)))\<rparr>"
proof -
  have m: "pd_mean (map (\<lambda>row. row ! 0)
             (rows_of_weekday \<lparr>index = map (\<lambda>d. real_of_int d * 86400) ds, columns = [g],
                     cells = map (\<lambda>d. [if P d then Some 1 else None]) ds\<rparr> w))
           = (if \<exists>d \<in> set ds. (d + 3) mod 7 = w \<and> P d then Some 1 else None)" for w
  proof -
    have e: "(\<exists>d \<in> set (filter (\<lambda>d. (d + 3) mod 7 = w) ds). P d)
               \<longleftrightarrow> (\<exists>d \<in> set ds. (d + 3) mod 7 = w \<and> P d)"
      by auto
    have "pd_mean (map (\<lambda>row. row ! 0)
             (rows_of_weekday \<lparr>index = map (\<lambda>d. real_of_int d * 86400) ds, columns = [g],
                     cells = map (\<lambda>d. [if P d then Some 1 else None]) ds\<rparr> w))
          = pd_mean (map (\<lambda>d. if P d then Some 1 else None) (filter (\<lambda>d. (d + 3) mod 7 = w) ds))"
      by (simp add: rows_of_weekday_days comp_def)
    also have "\<dots> = (if \<exists>d \<in> set (filter (\<lambda>d. (d + 3) mod 7 = w) ds). P d then Some 1 else None)"
      by (rule pd_mean_ones)
    finally show ?thesis by (simp only: e)
  qed
  show ?thesis
    by (simp add: groupby_weekday_mean_def Let_def comp_def weekday_day_start m)
qed

lemma rescale_one_column:
  "rescale_column 24 (row_sums \<lparr>index = ix, columns = [g], cells = map (\<lambda>w. [m w]) ws\<rparr>)
        \<lparr>index = ix, columns = [g], cells = map (\<lambda>w. [m w]) ws\<rparr> g
   = \<lparr>index = ix, columns = [g],
      cells = map (\<lambda>w. [pd_div (map_option (\<lambda>a. a * 24) (m w)) (m w)]) ws\<rparr>"
proof -
  let ?F = "\<lparr>index = ix, columns = [g], cells = map (\<lambda>w. [m w]) ws\<rparr>"
  have c1: "column ?F g = map m ws"
    by (simp add: column_def positions_single comp_def)
  have c2: "row_sums ?F = map m ws"
    by (simp add: row_sums_def pd_sum_single comp_def)
  have c3: "map (\<lambda>(x, v). pd_div (map_option (\<lambda>a. a * 24) x) v) (zip (map m ws) (map m ws))
              = map (\<lambda>w. pd_div (map_option (\<lambda>a. a * 24) (m w)) (m w)) ws"
    by (induction ws) simp_all
  have c4: "map (\<lambda>(row, v). row[0 := v]) (zip (map (\<lambda>w. [m w]) ws) (map m' ws))
              = map (\<lambda>w. [m' w]) ws" for m' :: "'a \<Rightarrow> real option"
    by (induction ws) simp_all
  show ?thesis
    unfolding rescale_column_def c1 c2 c3
    by (simp add: set_column_def positions_single c4)
qed

lemma rescale_ones:
  "pd_div (map_option (\<lambda>a. a * 24) (if Q then Some 1 else None)) (if Q then Some 1 else None)
     = (if Q then Some 24 else None)"
  by (simp add: pd_div_def)

lemma obfuscate_frame_cells:
  "index (obfuscate_frame cfg rnd D) = index D" "cells (obfuscate_frame cfg rnd D) = cells D"
  by (simp_all add: obfuscate_frame_def)

lemma day_of_the_week_sums_one_column:
  assumes "s \<noteq> []" and "\<forall>p \<in> set s. 0 \<le> snd p"
  shows "\<exists>R. day_of_the_week_sums cfg rnd (one_column g s) (Some [g]) None False
               = Inr (one_column g s, R)
           \<and> index R = map real_of_int (sort (remdups (map (\<lambda>d. (d + 3) mod 7)
                [day_of (list_min (map fst s)) .. day_of (list_max (map fst s))])))
           \<and> cells R = map (\<lambda>w. [if \<exists>d \<in> set [day_of (list_min (map fst s)) ..
                                                   day_of (list_max (map fst s))].
                                      (d + 3) mod 7 = w
                                      \<and> (\<exists>p \<in> set s. day_of (fst p) = d \<and> 0 < snd p)
                                 then Some 24 else None])
                (sort (remdups (map (\<lambda>d. (d + 3) mod 7)
                  [day_of (list_min (map fst s)) .. day_of (list_max (map fst s))])))"
proof -
  let ?days = "[day_of (list_min (map fst s)) .. day_of (list_max (map fst s))]"
  let ?S = "\<lambda>d. sum_list (map snd (filter (\<lambda>p. day_of (fst p) = d) s))"
  let ?P = "\<lambda>d. \<exists>p \<in> set s. day_of (fst p) = d \<and> 0 < snd p"
  have pos: "?S d = 0 \<longleftrightarrow> \<not> ?P d" for d
  proof -
    have "?S d = 0 \<longleftrightarrow> (\<forall>x \<in> set (map snd (filter (\<lambda>p. day_of (fst p) = d) s)). x = 0)"
      using assms(2) by (intro sum_list_nonneg_eq_0_iff) auto
    also have "\<dots> \<longleftrightarrow> \<not> ?P d"
      using assms(2) by fastforce
    finally show ?thesis .
  qed
  have d1: "fillna0 (resample_sum (one_column g s)) =
           \<lparr>index = map (\<lambda>d. real_of_int d * 86400) ?days, columns = [g],
            cells = map (\<lambda>d. [Some (?S d)]) ?days\<rparr>"
    using assms(1) by (rule resample_one_column)
  have d2: "div_by_row_sums (fillna0 (resample_sum (one_column g s))) =
           \<lparr>index = map (\<lambda>d. real_of_int d * 86400) ?days, columns = [g],
            cells = map (\<lambda>d. [if ?P d then Some 1 else None]) ?days\<rparr>"
    unfolding d1 div_by_row_sums_single by (simp add: pos)
  have d3: "groupby_weekday_mean (div_by_row_sums (fillna0 (resample_sum (one_column g s)))) =
      \<lparr>index = map real_of_int (sort (remdups (map (\<lambda>d. (d + 3) mod 7) ?days))), columns = [g],
      cells = map (\<lambda>w. [if \<exists>d \<in> set ?days. (d + 3) mod 7 = w \<and> ?P d then Some 1 else None])
                (sort (remdups (map (\<lambda>d. (d + 3) mod 7) ?days)))\<rparr>"
    unfolding d2 by (rule groupby_weekday_mean_days)
  show ?thesis
    by (simp add: day_of_the_week_sums_def resolve_top_n_def view_select_def select_one_column
        inject_other_def deref_def Let_def d3 rescale_one_column rescale_ones
        obfuscate_frame_cells del: set_upto)
qed

theorem day_of_the_week_sums_keeps_source_witness:
  "\<exists>D' R. day_of_the_week_sums default_config (\<lambda>_. ''XXXX'') (one_column ''a'' [(0, 1)])
              (Some [''a'']) None False = Inr (D', R)
           \<and> D' = one_column ''a'' [(0, 1)]"
proof -
  obtain R where r: "day_of_the_week_sums default_config (\<lambda>_. ''XXXX'') (one_column ''a'' [(0, 1)])
              (Some [''a'']) None False = Inr (one_column ''a'' [(0, 1)], R)"
    using day_of_the_week_sums_one_column [of "[(0, 1)]" default_config "\<lambda>_. ''XXXX''" "''a''"]
    by auto
  from day_of_the_week_sums_keeps_source [OF r] r show ?thesis by blast
qed

subsection \<open>The events of a log with one tag\<close>

lemma kernel_of_parse:
  assumes "0 < sigma cfg" and "parse_events cfg noise h = Inr r"
  shows "\<exists>kern. kernel_of cfg noise = Inr kern \<and> parse_lines cfg kern h = Inr r
           \<and> (\<forall>p \<in> set kern. 0 \<le> fst p) \<and> (\<exists>p \<in> set kern. 0 < fst p)"
proof -
  from offsetlist_nonempty [OF assms(1)] obtain offs where
    o: "offsetlist cfg noise = Inr offs" "offs \<noteq> []" by blast
  from assms(2) o(1) obtain ws where w: "weights (sigma cfg) offs = Some ws"
    and pl: "parse_lines cfg (zip ws offs) h = Inr r"
    by (auto simp: parse_events_def split: option.splits sum.splits)
  from weights_Some [OF w o(2)] have l: "length ws = length offs"
    and nonneg: "\<forall>w \<in> set ws. 0 \<le> w" and ex: "\<exists>w \<in> set ws. 0 < w"
    by simp_all
  have "\<forall>p \<in> set (zip ws offs). 0 \<le> fst p"
    using nonneg by (auto dest: set_zip_leftD)
  moreover have "\<exists>p \<in> set (zip ws offs). 0 < fst p"
  proof -
    from ex obtain j where j: "j < length ws" "0 < ws ! j" by (auto simp: in_set_conv_nth)
    then have "(ws ! j, offs ! j) \<in> set (zip ws offs)"
      using l by (auto simp: set_zip)
    with j(2) show ?thesis by force
  qed
  ultimately show ?thesis
    using o(1) w pl by (intro exI [of _ "zip ws offs"]) (simp add: kernel_of_def)
qed

lemma offset_loop_no_skip:
  assumes "skipweekdays cfg = []" and "offset_loop cfg dt t d kern = Inr (evs, m)"
  shows "evs = map (\<lambda>p. (t, dt + snd p * interval cfg * 3600, fst p * d)) kern \<and> m = 0"
  using assms(2)
proof (induction kern arbitrary: evs m)
  case Nil
  then show ?case by simp
next
  case (Cons p kern)
  obtain w off where p: "p = (w, off)" by (cases p)
  from Cons.prems obtain evs' m' where r: "offset_loop cfg dt t d kern = Inr (evs', m')"
    unfolding p by (auto split: sum.splits)
  from Cons.IH [OF r] have "evs' = map (\<lambda>p. (t, dt + snd p * interval cfg * 3600, fst p * d)) kern"
    "m' = 0" by simp_all
  with Cons.prems r show ?case
    unfolding p using assms(1)
    by (auto simp: add_hours_def Let_def split: sum.splits if_splits)
qed

lemma line_events_uniform:
  assumes "plain_tag g" and "g \<notin> set (skiptags cfg)" and "skipweekdays cfg = []"
    and "line_events cfg kern (log_line ts [g]) = Inr (e, m)"
  shows "e = map (\<lambda>p. (g, real_of_int (ts + utcoffset cfg) + snd p * interval cfg * 3600,
                        fst p * interval cfg)) kern"
proof -
  let ?dt = "real_of_int (ts + utcoffset cfg)"
  have f: "fields_of (log_line ts [g]) = [str_int ts, g]"
    using assms(1) by (simp add: fields_of_log_line)
  from assms(4) have "parse_sample cfg (log_line ts [g]) = Inr (?dt, [g])"
    using assms(2)
    by (auto simp: line_events_def parse_sample_def f py_int_str_int fromtimestamp_def
        surviving_tags_def Let_def split: sum.splits if_splits)
  with assms(4) have "offset_loop cfg ?dt g (interval cfg) kern = Inr (e, m)"
    by (auto simp: line_events_def Let_def split: sum.splits if_splits)
  then show ?thesis
    using offset_loop_no_skip [OF assms(3)] by blast
qed

lemma parse_lines_events:
  assumes "parse_lines cfg kern ls = Inr (evs, m)"
  shows "\<exists>es. length es = length ls \<and> evs = concat es
           \<and> (\<forall>i < length ls. \<exists>m'. line_events cfg kern (ls ! i) = Inr (es ! i, m'))"
  using assms
proof (induction ls arbitrary: evs m)
  case Nil
  then show ?case by simp
next
  case (Cons l ls)
  from Cons.prems obtain e k evs' k' where
    l: "line_events cfg kern l = Inr (e, k)" and r: "parse_lines cfg kern ls = Inr (evs', k')"
    and evs: "evs = e @ evs'"
    by (auto split: sum.splits)
  from Cons.IH [OF r] obtain es where es: "length es = length ls" "evs' = concat es"
    "\<forall>i < length ls. \<exists>m'. line_events cfg kern (ls ! i) = Inr (es ! i, m')"
    by blast
  have "\<forall>i < length (l # ls). \<exists>m'. line_events cfg kern ((l # ls) ! i) = Inr ((e # es) ! i, m')"
  proof (intro allI impI)
    fix i assume "i < length (l # ls)"
    then show "\<exists>m'. line_events cfg kern ((l # ls) ! i) = Inr ((e # es) ! i, m')"
      using l es(3) by (cases i) auto
  qed
  with es evs show ?case by (intro exI [of _ "e # es"]) simp
qed

lemma map_nth_fun: "map (\<lambda>i. f (s ! i)) [0..<length s] = map f s"
  by (rule nth_equalityI) simp_all

lemma DataFrame_single_tag:
  assumes "evs \<noteq> []" and "\<forall>ev \<in> set evs. fst ev = g"
  shows "DataFrame evs = Inr (one_column g (map snd evs))"
proof -
  have "set (map fst evs) = {g}"
    using assms by (cases evs) auto
  then have "sorted_list_of_set (set (map fst evs)) = [g]" by simp
  then have keys: "sort (remdups (map fst evs)) = [g]"
    by (simp only: sorted_list_of_set_sort_remdups)
  have "filter (\<lambda>(t, dtx, v). t = g) evs = evs"
    using assms(2) by (intro filter_True) auto
  moreover have "map (\<lambda>(t, dtx, v). (dtx, v)) evs = map snd evs"
    by (rule map_cong) auto
  ultimately have s: "series evs g = map snd evs"
    by (simp add: series_def tag_events_def)
  show ?thesis
    unfolding DataFrame_def keys Let_def
    by (simp add: s one_column_def map_nth_fun [of "\<lambda>p. [Some (snd p)]" "map snd evs", simplified])
qed

lemma day_of_eq:
  assumes "86400 * real_of_int d \<le> x" and "x < 86400 * real_of_int d + 86400"
  shows "day_of x = d"
proof -
  have "real_of_int d \<le> x / 86400" using assms(1) by simp
  moreover have "x / 86400 < real_of_int d + 1" using assms(2) by simp
  ultimately show ?thesis unfolding day_of_def by (simp add: floor_eq_iff)
qed

lemma day_of_bounds:
  "86400 * real_of_int (day_of x) \<le> x" "x < 86400 * real_of_int (day_of x) + 86400"
proof -
  have "real_of_int \<lfloor>x / 86400\<rfloor> * 86400 \<le> x"
    by (rule floor_divide_lower) simp
  then show "86400 * real_of_int (day_of x) \<le> x"
    unfolding day_of_def by linarith
  have "x < (real_of_int \<lfloor>x / 86400\<rfloor> + 1) * 86400"
    by (rule floor_divide_upper) simp
  then show "x < 86400 * real_of_int (day_of x) + 86400"
    unfolding day_of_def by linarith
qed

lemma day_of_mono: "x \<le> y \<Longrightarrow> day_of x \<le> day_of y"
  unfolding day_of_def by (intro floor_mono) simp

lemma uniform_days_covered:
  assumes "0 < step" and "step \<le> 86400" and "int n * step = 604800"
    and "day_of a \<le> d" and "d \<le> day_of a + 6"
  shows "\<exists>k < n. day_of (a + real_of_int (int k * step)) = d"
proof (cases "d = day_of a")
  case True
  from assms(1,3) have "0 < n" by (cases n) simp_all
  with True show ?thesis by (intro exI [of _ 0]) simp
next
  case False
  with assms(4) have d: "day_of a + 1 \<le> d" by simp
  let ?r = "real_of_int step"
  let ?x = "(86400 * real_of_int d - a) / ?r"
  let ?K = "\<lceil>?x\<rceil>"
  have r: "0 < ?r" "?r \<le> 86400" using assms(1,2) by simp_all
  have a: "86400 * real_of_int (day_of a) \<le> a" "a < 86400 * real_of_int (day_of a) + 86400"
    by (rule day_of_bounds)+
  have d': "real_of_int (day_of a) + 1 \<le> real_of_int d" "real_of_int d \<le> real_of_int (day_of a) + 6"
    using d assms(5) by linarith+
  have xpos: "0 < ?x" using a d' r by simp
  then have K0: "0 < ?K" by simp
  have "?x \<le> real_of_int ?K" by simp
  then have lo: "86400 * real_of_int d - a \<le> real_of_int ?K * ?r"
    using r(1) by (simp only: pos_divide_le_eq)
  have "real_of_int ?K - 1 < ?x" by linarith
  then have "(real_of_int ?K - 1) * ?r < 86400 * real_of_int d - a"
    using r(1) by (simp only: pos_less_divide_eq)
  then have hi: "real_of_int ?K * ?r < 86400 * real_of_int d - a + ?r"
    by (simp add: algebra_simps)
  have "real_of_int ?K * ?r < 518400 + ?r" using hi a d' by linarith
  also have "\<dots> \<le> 604800" using r by simp
  also have "\<dots> = real n * ?r"
    using assms(3) by (metis of_int_mult of_int_numeral of_int_of_nat_eq)
  finally have "real_of_int ?K < real n" using r(1) by simp
  then have kn: "nat ?K < n" using K0 by linarith
  have e: "real_of_int (int (nat ?K) * step) = real_of_int ?K * ?r" using K0 by simp
  have "day_of (a + real_of_int (int (nat ?K) * step)) = d"
    unfolding e using lo hi r by (intro day_of_eq) linarith+
  with kn show ?thesis by blast
qed

lemma weekdays_sorted: "sorted_list_of_set {0..6::int} = [0, 1, 2, 3, 4, 5, 6]"
proof -
  have "{0..6::int} = set [0, 1, 2, 3, 4, 5, 6]" by auto
  then show ?thesis
    by (simp only: sorted_list_of_set.idem_if_sorted_distinct) simp
qed

lemma weekday_reached:
  assumes "0 \<le> w" and "w \<le> (6::int)"
  shows "\<exists>d. d0 \<le> d \<and> d \<le> d0 + 6 \<and> (d + 3) mod 7 = w"
proof -
  let ?d = "d0 + (w - 3 - d0) mod 7"
  have "d0 \<le> ?d" "?d \<le> d0 + 6" by simp_all
  moreover have "(?d + 3) mod 7 = w"
  proof -
    have "(?d + 3) mod 7 = (d0 + (w - 3 - d0) + 3) mod 7"
      by (metis mod_add_left_eq mod_add_right_eq)
    also have "d0 + (w - 3 - d0) + 3 = w" by simp
    finally show ?thesis using assms by simp
  qed
  ultimately show ?thesis by blast
qed

lemma weekdays_of_week:
  assumes "lo \<le> d0" and "d0 + 6 \<le> hi"
  shows "sort (remdups (map (\<lambda>d. (d + 3) mod 7) [lo..hi])) = [0, 1, 2, 3, 4, 5, 6]"
proof -
  have "set (map (\<lambda>d. (d + 3) mod 7) [lo..hi]) = {0..6}"
  proof (intro equalityI subsetI)
    fix w assume "w \<in> set (map (\<lambda>d. (d + 3) mod 7) [lo..hi])"
    then obtain d where "w = (d + 3) mod 7" by auto
    then show "w \<in> {0..6}" by simp
  next
    fix w :: int assume "w \<in> {0..6}"
    then have "0 \<le> w" "w \<le> 6" by simp_all
    then obtain d where "d0 \<le> d" "d \<le> d0 + 6" "(d + 3) mod 7 = w"
      using weekday_reached by blast
    with assms have "d \<in> set [lo..hi]" by simp
    with \<open>(d + 3) mod 7 = w\<close> show "w \<in> set (map (\<lambda>d. (d + 3) mod 7) [lo..hi])" by force
  qed
  then have "sorted_list_of_set (set (map (\<lambda>d. (d + 3) mod 7) [lo..hi])) = [0, 1, 2, 3, 4, 5, 6]"
    by (simp only: weekdays_sorted)
  then show ?thesis by (simp only: sorted_list_of_set_sort_remdups)
qed

text \<open>
  C5. A log of pings with one tag, one every \<open>step\<close> seconds (at most a day apart) over
  exactly one week (\<open>n * step = 604800\<close>), parsed with nothing excluded, a positive
  interval and a positive sigma, with or without smoothing: the day-of-the-week view of
  that tag (daily sums, each day divided by its total, mean per weekday, rescaled by
  \<open>24 / total\<close>) has the seven weekdays as its rows and every row adds up to exactly 24.
\<close>

theorem full_week_every_weekday_24_hours:
  assumes "0 < sigma cfg" and "0 < interval cfg"
    and "skipweekdays cfg = []" and "g \<notin> set (skiptags cfg)" and "plain_tag g"
    and "0 < step" and "step \<le> 86400" and "int n * step = 604800"
    and "parse_file cfg noise (uniform_log t0 step n g) = Inr (D, k)"
  shows "\<exists>R. day_of_the_week_sums cfg rnd D (Some [g]) None False = Inr (D, R)
           \<and> index R = [0, 1, 2, 3, 4, 5, 6]
           \<and> row_sums R = replicate 7 (Some 24)"
proof -
  let ?I = "interval cfg"
  let ?T = "\<lambda>i. real_of_int (t0 + int i * step + utcoffset cfg)"
  from assms(9) obtain evs where
    pe: "parse_events cfg noise (uniform_log t0 step n g) = Inr (evs, k)"
    and df: "DataFrame evs = Inr D"
    by (auto simp: parse_file_def split: sum.splits prod.splits)
  from kernel_of_parse [OF assms(1) pe] obtain kern where
    pl: "parse_lines cfg kern (uniform_log t0 step n g) = Inr (evs, k)"
    and kern: "\<forall>p \<in> set kern. 0 \<le> fst p" "\<exists>p \<in> set kern. 0 < fst p"
    by blast
  from parse_lines_events [OF pl] obtain es where
    es: "length es = n" "evs = concat es"
    "\<forall>i < n. \<exists>m'. line_events cfg kern (uniform_log t0 step n g ! i) = Inr (es ! i, m')"
    by (auto simp: uniform_log_def)
  have line: "es ! i = map (\<lambda>p. (g, ?T i + snd p * ?I * 3600, fst p * ?I)) kern" if "i < n" for i
  proof -
    from that es(3) obtain m' where
      "line_events cfg kern (log_line (t0 + int i * step) [g]) = Inr (es ! i, m')"
      by (auto simp: uniform_log_def)
    then show ?thesis
      using assms(3,4,5) by (intro line_events_uniform) simp_all
  qed
  have n: "0 < n" using assms(6,8) by (cases n) simp_all
  have all: "fst ev = g \<and> 0 \<le> snd (snd ev)" if "ev \<in> set evs" for ev
  proof -
    from that es(2) obtain e where "e \<in> set es" "ev \<in> set e" by auto
    then obtain i where i: "i < n" "ev \<in> set (es ! i)"
      unfolding es(1) [symmetric] by (metis in_set_conv_nth)
    then obtain p where "p \<in> set kern" "ev = (g, ?T i + snd p * ?I * 3600, fst p * ?I)"
      using line by auto
    with kern(1) assms(2) show ?thesis by simp
  qed
  obtain w0 o0 where hd: "(w0, o0) \<in> set kern" and w0: "0 < w0" using kern(2) by auto
  have v0: "0 < w0 * ?I" using w0 assms(2) by simp
  let ?a = "real_of_int (t0 + utcoffset cfg) + o0 * ?I * 3600"
  have mem: "(g, ?a + real_of_int (int i * step), w0 * ?I) \<in> set evs" if "i < n" for i
  proof -
    have eq: "?T i + o0 * ?I * 3600 = ?a + real_of_int (int i * step)" by simp
    have "(g, ?T i + o0 * ?I * 3600, w0 * ?I) \<in> set (es ! i)"
      using hd line [OF that] by force
    then have "(g, ?a + real_of_int (int i * step), w0 * ?I) \<in> set (es ! i)"
      unfolding eq .
    moreover have "es ! i \<in> set es" using that es(1) by simp
    ultimately show ?thesis unfolding es(2) set_concat by blast
  qed
  let ?s = "map snd evs"
  have ne: "evs \<noteq> []" using mem [OF n] by auto
  have D: "D = one_column g ?s"
    using DataFrame_single_tag [OF ne, of g] all df by simp
  have s1: "?s \<noteq> []" using ne by simp
  have s2: "\<forall>p \<in> set ?s. 0 \<le> snd p" using all by auto
  let ?lo = "day_of (list_min (map fst ?s))"
  let ?hi = "day_of (list_max (map fst ?s))"
  let ?ws = "sort (remdups (map (\<lambda>d. (d + 3) mod 7) [?lo..?hi]))"
  let ?P = "\<lambda>d. \<exists>p \<in> set ?s. day_of (fst p) = d \<and> 0 < snd p"
  from day_of_the_week_sums_one_column [OF s1 s2, of cfg rnd g] obtain R where
    R: "day_of_the_week_sums cfg rnd D (Some [g]) None False = Inr (D, R)"
    "index R = map real_of_int ?ws"
    "cells R = map (\<lambda>w. [if \<exists>d \<in> set [?lo..?hi]. (d + 3) mod 7 = w \<and> ?P d
                            then Some 24 else None]) ?ws"
    unfolding D by blast
  have pair: "(?a + real_of_int (int i * step), w0 * ?I) \<in> set ?s" if "i < n" for i
  proof -
    have "snd (g, ?a + real_of_int (int i * step), w0 * ?I) \<in> snd ` set evs"
      using mem [OF that] by (rule imageI)
    then show ?thesis by simp
  qed
  have cover: "?P d \<and> ?lo \<le> d \<and> d \<le> ?hi" if "day_of ?a \<le> d" "d \<le> day_of ?a + 6" for d
  proof -
    from uniform_days_covered [OF assms(6,7,8) that] obtain i where
      i: "i < n" "day_of (?a + real_of_int (int i * step)) = d" by blast
    let ?t = "?a + real_of_int (int i * step)"
    have p: "(?t, w0 * ?I) \<in> set ?s" using i(1) by (rule pair)
    then have "fst (?t, w0 * ?I) \<in> fst ` set ?s" by (rule imageI)
    then have t: "?t \<in> set (map fst ?s)" by (simp add: image_image)
    have "?P d" using p i(2) v0 by (intro bexI [of _ "(?t, w0 * ?I)"]) simp_all
    moreover have "?lo \<le> d"
      using day_of_mono [OF list_min_le [OF t]] i(2) by simp
    moreover have "d \<le> ?hi"
      using day_of_mono [OF list_max_ge [OF t]] i(2) by simp
    ultimately show ?thesis by blast
  qed
  have lo: "?lo \<le> day_of ?a" using cover [of "day_of ?a"] by simp
  have hi: "day_of ?a + 6 \<le> ?hi" using cover [of "day_of ?a + 6"] by simp
  have ws: "?ws = [0, 1, 2, 3, 4, 5, 6]"
    using lo hi by (rule weekdays_of_week)
  have c: "\<exists>d \<in> set [?lo..?hi]. (d + 3) mod 7 = w \<and> ?P d" if "0 \<le> w" "w \<le> 6" for w
  proof -
    from weekday_reached [OF that] obtain d where
      d: "day_of ?a \<le> d" "d \<le> day_of ?a + 6" "(d + 3) mod 7 = w" by blast
    with cover [OF d(1,2)] show ?thesis by auto
  qed
  have "cells R = map (\<lambda>w. [Some 24]) [0, 1, 2, 3, 4, 5, 6]"
    unfolding R(3) ws using c by simp
  then have "row_sums R = replicate 7 (Some 24)"
    by (simp add: row_sums_def pd_sum_single numeral_eq_Suc)
  moreover have "index R = [0, 1, 2, 3, 4, 5, 6]"
    unfolding R(2) ws by simp
  ultimately show ?thesis using R(1) by blast
qed

lemma week_log_parse:
  "parse_file (default_config\<lparr>smooth := False, interval := 24\<rparr>) (\<lambda>_. 0)
      (uniform_log 0 86400 7 ''a'')
   = Inr (\<lparr>index = [0, 86400, 172800, 259200, 345600, 432000, 518400], columns = [''a''],
           cells = [[Some 24], [Some 24], [Some 24], [Some 24], [Some 24], [Some 24], [Some 24]]\<rparr>, 0)"
proof -
  let ?c = "default_config\<lparr>smooth := False, interval := 24\<rparr>"
  have c: "\<not> smooth ?c" "sigma ?c \<noteq> 0" "skipweekdays ?c = []" "skiptags ?c = []"
    "multitag ?c = ''first''" "interval ?c = 24" "utcoffset ?c = 0"
    by (simp_all add: default_config_def)
  have k: "kernel_of ?c (\<lambda>_. 0) = Inr [(1, 0)]"
    using c(1,2) by (rule kernel_of_no_smooth)
  have pl: "plain_tag ''a''" by (simp add: plain_tag_def is_space_def)
  have l: "line_events ?c [(1, 0)] (log_line ts [''a'']) = Inr ([(''a'', real_of_int ts, 24)], 0)"
    if "0 \<le> ts" "ts \<le> 518400" for ts
  proof -
    have "in_datetime_range (real_of_int (ts + utcoffset ?c))"
      using that by (simp add: in_datetime_range_def datetime_min_def datetime_max_def c)
    then show ?thesis
      using pl c by (simp add: line_events_def parse_sample_log_line tag_loop_single)
  qed
  have u: "uniform_log 0 86400 7 ''a'' = [log_line 0 [''a''], log_line 86400 [''a''],
     log_line 172800 [''a''], log_line 259200 [''a''], log_line 345600 [''a''],
     log_line 432000 [''a''], log_line 518400 [''a'']]"
    by (simp add: uniform_log_def upt_rec)
  have "parse_lines ?c [(1, 0)] (uniform_log 0 86400 7 ''a'')
      = Inr ([(''a'', 0, 24), (''a'', 86400, 24), (''a'', 172800, 24), (''a'', 259200, 24),
              (''a'', 345600, 24), (''a'', 432000, 24), (''a'', 518400, 24)], 0)"
    unfolding u by (simp add: l)
  then have e: "parse_events ?c (\<lambda>_. 0) (uniform_log 0 86400 7 ''a'')
      = Inr ([(''a'', 0, 24), (''a'', 86400, 24), (''a'', 172800, 24), (''a'', 259200, 24),
              (''a'', 345600, 24), (''a'', 432000, 24), (''a'', 518400, 24)], 0)"
    using k by (auto simp: parse_events_def kernel_of_def split: sum.splits option.splits)
  have "DataFrame [(''a'', 0, 24), (''a'', 86400, 24), (''a'', 172800, 24), (''a'', 259200, 24),
              (''a'', 345600, 24), (''a'', 432000, 24), (''a'', 518400, 24)]
      = Inr (one_column ''a'' (map snd [(''a'', 0, 24), (''a'', 86400, 24), (''a'', 172800, 24),
              (''a'', 259200, 24), (''a'', 345600, 24), (''a'', 432000, 24), (''a'', 518400, 24)]))"
    by (rule DataFrame_single_tag) simp_all
  with e show ?thesis by (simp add: parse_file_def one_column_def)
qed

theorem full_week_every_weekday_24_hours_witness:
  "parse_file (default_config\<lparr>smooth := False, interval := 24\<rparr>) (\<lambda>_. 0)
      (uniform_log 0 86400 7 ''a'')
   = Inr (\<lparr>index = [0, 86400, 172800, 259200, 345600, 432000, 518400], columns = [''a''],
           cells = [[Some 24], [Some 24], [Some 24], [Some 24], [Some 24], [Some 24], [Some 24]]\<rparr>, 0)
   \<and> (\<exists>R. day_of_the_week_sums (default_config\<lparr>smooth := False, interval := 24\<rparr>) (\<lambda>_. ''XXXX'')
            \<lparr>index = [0, 86400, 172800, 259200, 345600, 432000, 518400], columns = [''a''],
             cells = [[Some 24], [Some 24], [Some 24], [Some 24], [Some 24], [Some 24], [Some 24]]\<rparr>
            (Some [''a'']) None False
          = Inr (\<lparr>index = [0, 86400, 172800, 259200, 345600, 432000, 518400], columns = [''a''],
             cells = [[Some 24], [Some 24], [Some 24], [Some 24], [Some 24], [Some 24], [Some 24]]\<rparr>, R)
        \<and> index R = [0, 1, 2, 3, 4, 5, 6]
        \<and> row_sums R = replicate 7 (Some 24))"
proof -
  let ?c = "default_config\<lparr>smooth := False, interval := 24\<rparr>"
  have h: "0 < sigma ?c" "0 < interval ?c" "skipweekdays ?c = []" "''a'' \<notin> set (skiptags ?c)"
    "plain_tag ''a''" "(0::int) < 86400" "(86400::int) \<le> 86400" "int 7 * 86400 = 604800"
    by (simp_all add: default_config_def plain_tag_def is_space_def)
  from full_week_every_weekday_24_hours [OF h week_log_parse, of "\<lambda>_. ''XXXX''"] week_log_parse
  show ?thesis by simp
qed

end
